theory Spec2Isabelle
  imports Complex_Main "HOL-Library.AList"
begin

section \<open>Python values used by the quiz system\<close>

text \<open>
  Exceptions of the Python code are values; a function that can raise returns
  \<open>error + 'a\<close>, with \<open>Inl\<close> for the exception and its message.
\<close>

datatype error =
    ValueError string
  | KeyError string
  | ZeroDivisionError
  | Exception string

text \<open>
  \<open>str.lower()\<close> on ASCII text: the letters \<open>A\<close>..\<open>Z\<close> (codes 65..90) get bit 5 set,
  every other character is kept.
\<close>

fun lower_char :: "char \<Rightarrow> char" where
  "lower_char (Char b0 b1 b2 b3 b4 b5 b6 b7) =
     (let n = (of_char (Char b0 b1 b2 b3 b4 b5 b6 b7) :: nat)
      in if 65 \<le> n \<and> n \<le> 90 then Char b0 b1 b2 b3 b4 True b6 b7
         else Char b0 b1 b2 b3 b4 b5 b6 b7)"

definition lower :: "string \<Rightarrow> string" where
  "lower s = map lower_char s"

section \<open>quiz\_store.py: the quiz store\<close>

text \<open>
  A question is a Python dict. The store reads only its \<open>'correct_answer'\<close> entry, which a
  dict may lack (\<open>None\<close> here, a \<open>KeyError\<close> in Python); the generators of
  quiz\_generator.py fill the other entries.
\<close>

record question =
  q_question :: string
  q_options :: "string list option"
  q_correct :: nat
  q_type :: string
  q_correct_answer :: "string option"

text \<open>A \<open>datetime\<close> is a number of microseconds; \<open>time.time()\<close> is a real number of seconds.\<close>

type_synonym datetime = int

record submission =
  sub_student_name :: string
  sub_answers :: "string list"
  sub_timestamp :: datetime

record quiz =
  questions :: "question list"
  quiz_type :: string
  created_by :: string
  submissions :: "submission list"
  created_at :: datetime
  expires_at :: datetime
  total_attempts :: nat
  average_score :: real

text \<open>
  The three dicts of \<open>QuizStore\<close> are association lists in insertion order:
  \<open>d.get(k)\<close> is \<open>map_of\<close>, \<open>d[k] = v\<close> is \<open>AList.update\<close>, \<open>d.pop(k, None)\<close> is \<open>AList.delete\<close>.
  A value of \<open>expired_quizzes\<close> can be Python's \<open>None\<close>, so its values are options.
\<close>

record store =
  st_quizzes :: "(string \<times> quiz) list"
  st_submissions :: "(string \<times> submission list) list"
  st_expired_quizzes :: "(string \<times> quiz option) list"
  st_last_cleanup :: real

text \<open>\<open>timedelta(hours=24)\<close> in microseconds, and the cleanup interval in seconds.\<close>

definition expiry_time :: int where
  "expiry_time = 24 * 3600 * 1000000"

definition cleanup_interval :: real where
  "cleanup_interval = 3600"

definition init_store :: "real \<Rightarrow> store" where
  "init_store tt = \<lparr>st_quizzes = [], st_submissions = [], st_expired_quizzes = [],
                     st_last_cleanup = tt\<rparr>"

text \<open>
  \<open>cleanup_expired_quizzes\<close>: \<open>now\<close> is the reading of \<open>datetime.now()\<close>, \<open>tt\<close> the one of
  \<open>time.time()\<close>. The loop body pops the code from \<open>quizzes\<close> and from \<open>submissions\<close> and
  then stores \<open>self.quizzes.get(code)\<close> in the archive.
\<close>

definition expired_codes :: "store \<Rightarrow> datetime \<Rightarrow> string list" where
  "expired_codes s now = map fst (filter (\<lambda>(code, quiz). now \<ge> expires_at quiz) (st_quizzes s))"

definition cleanup_step :: "store \<Rightarrow> string \<Rightarrow> store" where
  "cleanup_step s code =
     (let qs = AList.delete code (st_quizzes s);
          subs = AList.delete code (st_submissions s)
      in s\<lparr>st_quizzes := qs, st_submissions := subs,
            st_expired_quizzes := AList.update code (map_of qs code) (st_expired_quizzes s)\<rparr>)"

definition cleanup_expired_quizzes :: "store \<Rightarrow> datetime \<Rightarrow> real \<Rightarrow> store" where
  "cleanup_expired_quizzes s now tt =
     (foldl cleanup_step s (expired_codes s now))\<lparr>st_last_cleanup := tt\<rparr>"

text \<open>
  \<open>create_quiz\<close>: \<open>tt\<close> is its reading of \<open>time.time()\<close>, \<open>now_cl\<close> and \<open>tt_cl\<close> are the
  readings of the cleanup when it runs, \<open>quiz_code\<close> is \<open>str(uuid.uuid4())[:8].upper()\<close>,
  \<open>now1\<close> and \<open>now2\<close> are the two readings of \<open>datetime.now()\<close> for \<open>created_at\<close> and
  \<open>expires_at\<close>.
\<close>

definition create_quiz ::
  "store \<Rightarrow> question list \<Rightarrow> string \<Rightarrow> string \<Rightarrow> real \<Rightarrow> datetime \<Rightarrow> real \<Rightarrow> string
     \<Rightarrow> datetime \<Rightarrow> datetime \<Rightarrow> store \<times> string" where
  "create_quiz s qs qtype creator tt now_cl tt_cl quiz_code now1 now2 =
     (let s1 = (if tt - st_last_cleanup s > cleanup_interval
                then (cleanup_expired_quizzes s now_cl tt_cl)\<lparr>st_last_cleanup := tt\<rparr>
                else s);
          q = \<lparr>questions = qs, quiz_type = qtype, created_by = creator, submissions = [],
               created_at = now1, expires_at = now2 + expiry_time,
               total_attempts = 0, average_score = 0\<rparr>
      in (s1\<lparr>st_quizzes := AList.update quiz_code q (st_quizzes s1)\<rparr>, quiz_code))"

text \<open>\<open>get_quiz\<close>: a quiz dict is never empty, so \<open>if quiz and ...\<close> tests presence and expiry.\<close>

definition get_quiz :: "store \<Rightarrow> string \<Rightarrow> datetime \<Rightarrow> quiz option" where
  "get_quiz s quiz_code now =
     (case map_of (st_quizzes s) quiz_code of
        None \<Rightarrow> None
      | Some q \<Rightarrow> if now < expires_at q then Some q else None)"

definition get_expired_quiz :: "store \<Rightarrow> string \<Rightarrow> quiz option" where
  "get_expired_quiz s quiz_code =
     (case map_of (st_expired_quizzes s) quiz_code of None \<Rightarrow> None | Some v \<Rightarrow> v)"

text \<open>The response of \<open>submit_quiz\<close> and its feedback entries.\<close>

record feedback =
  fb_question_num :: nat
  fb_correct :: bool
  fb_student_answer :: string
  fb_correct_answer :: string

record response =
  r_student_name :: string
  r_submission_time :: datetime
  r_score :: nat
  r_score_percentage :: real
  r_total_questions :: nat
  r_answers :: "string list"
  r_feedback :: "feedback list"

text \<open>
  The generator expression that counts the correct answers over \<open>zip(questions, answers)\<close>;
  \<open>q['correct_answer']\<close> raises \<open>KeyError\<close> when the entry is missing.
\<close>

fun correct_count :: "(question \<times> string) list \<Rightarrow> error + nat" where
  "correct_count [] = Inr 0"
| "correct_count ((q, a) # zs) =
     (case q_correct_answer q of
        None \<Rightarrow> Inl (KeyError ''correct_answer'')
      | Some ca \<Rightarrow>
          (case correct_count zs of
             Inl e \<Rightarrow> Inl e
           | Inr n \<Rightarrow> Inr (if lower a = lower ca then Suc n else n)))"

text \<open>The feedback list comprehension over \<open>enumerate(zip(questions, answers))\<close>, from index \<open>i\<close>.\<close>

fun make_feedback :: "nat \<Rightarrow> (question \<times> string) list \<Rightarrow> error + feedback list" where
  "make_feedback i [] = Inr []"
| "make_feedback i ((q, a) # zs) =
     (case q_correct_answer q of
        None \<Rightarrow> Inl (KeyError ''correct_answer'')
      | Some ca \<Rightarrow>
          (case make_feedback (Suc i) zs of
             Inl e \<Rightarrow> Inl e
           | Inr fs \<Rightarrow> Inr (\<lparr>fb_question_num = i + 1, fb_correct = (lower a = lower ca),
                              fb_student_answer = a, fb_correct_answer = ca\<rparr> # fs)))"

text \<open>
  \<open>submit_quiz\<close>: \<open>now_get\<close> is the clock reading of \<open>get_quiz\<close>, \<open>now_sub\<close> the one of the
  submission's timestamp. An exception leaves the mutations made before it in place, so the
  store is returned in both cases. The quiz dict returned by \<open>get_quiz\<close> is the one held by
  \<open>quizzes\<close>: appending to its submissions and updating its statistics changes the store.
\<close>

definition submit_quiz ::
  "store \<Rightarrow> string \<Rightarrow> string \<Rightarrow> string list \<Rightarrow> datetime \<Rightarrow> datetime
     \<Rightarrow> store \<times> (error + response)" where
  "submit_quiz s quiz_code student answers now_get now_sub =
     (case get_quiz s quiz_code now_get of
        None \<Rightarrow> (s, Inl (ValueError ''Quiz not found''))
      | Some q \<Rightarrow>
          (let sub = \<lparr>sub_student_name = student, sub_answers = answers,
                       sub_timestamp = now_sub\<rparr>;
               old = (case map_of (st_submissions s) quiz_code of None \<Rightarrow> [] | Some l \<Rightarrow> l);
               q1 = q\<lparr>submissions := submissions q @ [sub]\<rparr>;
               s1 = s\<lparr>st_submissions := AList.update quiz_code (old @ [sub]) (st_submissions s),
                      st_quizzes := AList.update quiz_code q1 (st_quizzes s)\<rparr>;
               qs = questions q
           in if length answers \<noteq> length qs
              then (s1, Inl (ValueError ''Number of answers does not match number of questions''))
              else
                (case correct_count (zip qs answers) of
                   Inl e \<Rightarrow> (s1, Inl e)
                 | Inr c \<Rightarrow>
                     if length qs = 0 then (s1, Inl ZeroDivisionError)
                     else
                       (let pct = (real c / real (length qs)) * 100
                        in case make_feedback 0 (zip qs answers) of
                             Inl e \<Rightarrow> (s1, Inl e)
                           | Inr fb \<Rightarrow>
                               (let n = total_attempts q1 + 1;
                                    q2 = q1\<lparr>total_attempts := n,
                                           average_score :=
                                             (average_score q1 * (real n - 1) + pct) / real n\<rparr>
                                in (s1\<lparr>st_quizzes := AList.update quiz_code q2 (st_quizzes s1)\<rparr>,
                                    Inr \<lparr>r_student_name = student, r_submission_time = now_sub,
                                         r_score = c, r_score_percentage = pct,
                                         r_total_questions = length qs, r_answers = answers,
                                         r_feedback = fb\<rparr>))))))"

text \<open>A sequence of submissions to one quiz, each with its two clock readings; it stops at the
  first submission that raises.\<close>

fun submit_all ::
  "store \<Rightarrow> string \<Rightarrow> (string \<times> string list \<times> datetime \<times> datetime) list
     \<Rightarrow> store \<times> (error + response list)" where
  "submit_all s quiz_code [] = (s, Inr [])"
| "submit_all s quiz_code ((student, answers, now_get, now_sub) # rest) =
     (case submit_quiz s quiz_code student answers now_get now_sub of
        (s1, Inl e) \<Rightarrow> (s1, Inl e)
      | (s1, Inr r) \<Rightarrow>
          (case submit_all s1 quiz_code rest of
             (s2, Inl e) \<Rightarrow> (s2, Inl e)
           | (s2, Inr rs) \<Rightarrow> (s2, Inr (r # rs))))"

section \<open>Python built-ins used by the generators\<close>

definition startswith :: "string \<Rightarrow> string \<Rightarrow> bool" where
  "startswith s p = (take (length p) s = p)"

text \<open>\<open>s.replace(old, new, 1)\<close>: the leftmost occurrence of \<open>old\<close> is replaced.\<close>

fun replace_first :: "string \<Rightarrow> string \<Rightarrow> string \<Rightarrow> string" where
  "replace_first old new [] = (if old = [] then new else [])"
| "replace_first old new (c # cs) =
     (if take (length old) (c # cs) = old then new @ drop (length old) (c # cs)
      else c # replace_first old new cs)"

text \<open>
  \<open>s.replace(old, new)\<close>: every occurrence, left to right, without overlap. \<open>replace_from\<close>
  walks the string; its counter is the number of characters still to skip of the occurrence
  just replaced. An empty \<open>old\<close> matches before every character and at the end.
\<close>

fun replace_from :: "string \<Rightarrow> string \<Rightarrow> nat \<Rightarrow> string \<Rightarrow> string" where
  "replace_from old new k [] = []"
| "replace_from old new k (c # cs) =
     (if k > 0 then replace_from old new (k - 1) cs
      else if take (length old) (c # cs) = old then new @ replace_from old new (length old - 1) cs
      else c # replace_from old new 0 cs)"

definition replace_all :: "string \<Rightarrow> string \<Rightarrow> string \<Rightarrow> string" where
  "replace_all old new s =
     (if old = [] then new @ concat (map (\<lambda>c. c # new) s) else replace_from old new 0 s)"

text \<open>\<open>xs[:k]\<close> for a Python int \<open>k\<close>: a negative \<open>k\<close> counts from the end.\<close>

definition py_take :: "int \<Rightarrow> 'a list \<Rightarrow> 'a list" where
  "py_take k xs = (if k \<ge> 0 then take (nat k) xs else take (nat (int (length xs) + k)) xs)"

text \<open>\<open>list(dict.fromkeys(xs))\<close>: the first occurrence of every element, in order.\<close>

definition dict_fromkeys :: "'a list \<Rightarrow> 'a list" where
  "dict_fromkeys xs = rev (remdups (rev xs))"

text \<open>\<open>xs.index(x)\<close>: the first position of \<open>x\<close>; \<open>None\<close> where Python raises \<open>ValueError\<close>.\<close>

fun index_of :: "'a list \<Rightarrow> 'a \<Rightarrow> nat option" where
  "index_of [] x = None"
| "index_of (y # ys) x = (if y = x then Some 0 else map_option Suc (index_of ys x))"

text \<open>\<open>str.split()\<close> on whitespace and \<open>' '.join\<close>.\<close>

definition is_space :: "char \<Rightarrow> bool" where
  "is_space c = (let n = (of_char c :: nat) in n = 32 \<or> (9 \<le> n \<and> n \<le> 13) \<or> (28 \<le> n \<and> n \<le> 31))"

fun split_from :: "string \<Rightarrow> string \<Rightarrow> string list" where
  "split_from cur [] = (if cur = [] then [] else [cur])"
| "split_from cur (c # cs) =
     (if is_space c then (if cur = [] then split_from [] cs else cur # split_from [] cs)
      else split_from (cur @ [c]) cs)"

definition py_split :: "string \<Rightarrow> string list" where
  "py_split s = split_from [] s"

fun join_space :: "string list \<Rightarrow> string" where
  "join_space [] = []"
| "join_space [w] = w"
| "join_space (w # ws) = w @ '' '' @ join_space ws"

section \<open>The random module\<close>

text \<open>
  The random source is the list of the raw draws still to come. A draw \<open>r\<close> selects the
  position \<open>r mod n\<close> among \<open>n\<close>, so every outcome of the Python call is the outcome for some
  draw. A computation that needs a draw when the list is empty has no result (\<open>None\<close>): the
  list bounds the number of draws of a run, and a loop that draws forever has no result for
  any list.
\<close>

text \<open>\<open>random.choice(xs)\<close> for the draw \<open>r\<close>; every call in the code is on a non-empty list.\<close>

definition choice :: "'a list \<Rightarrow> nat \<Rightarrow> 'a" where
  "choice xs r = xs ! (r mod length xs)"

text \<open>\<open>random.sample(xs, k)\<close> for \<open>k \<le> len(xs)\<close>: \<open>k\<close> positions, each drawn among those left.\<close>

fun sample :: "'a list \<Rightarrow> nat \<Rightarrow> nat list \<Rightarrow> ('a list \<times> nat list) option" where
  "sample xs 0 rs = Some ([], rs)"
| "sample xs (Suc k) [] = None"
| "sample xs (Suc k) (r # rs) =
     (let i = r mod length xs
      in case sample (take i xs @ drop (Suc i) xs) k rs of
           None \<Rightarrow> None
         | Some (ys, rs') \<Rightarrow> Some (xs ! i # ys, rs'))"

text \<open>\<open>random.shuffle(xs)\<close>: a sample of all positions.\<close>

definition shuffle :: "'a list \<Rightarrow> nat list \<Rightarrow> ('a list \<times> nat list) option" where
  "shuffle xs rs = sample xs (length xs) rs"

section \<open>quiz\_generator.py\<close>

text \<open>
  The services the generators call and the repository does not define: NLTK's sentence and
  word tokenizers, its part-of-speech tagger, its English stop-word list, and the reading
  of a document file (PyPDF2, python-docx), which returns the text or raises.
\<close>

record nlp =
  sent_tokenize :: "string \<Rightarrow> string list"
  word_tokenize :: "string \<Rightarrow> string list"
  pos_tag :: "string list \<Rightarrow> (string \<times> string) list"
  stopwords_english :: "string list"
  extract_text :: "string \<Rightarrow> error + string"

definition blank :: string where
  "blank = ''_____''"

definition is_content_tag :: "string \<Rightarrow> bool" where
  "is_content_tag tag = (startswith tag ''NN'' \<or> startswith tag ''VB'' \<or> startswith tag ''JJ'')"

text \<open>The list comprehension \<open>important_words\<close> of the MCQ branch and of \<open>process_sentence\<close>.\<close>

definition important_words ::
  "nlp \<Rightarrow> string set \<Rightarrow> (string \<times> string) list \<Rightarrow> (string \<times> string) list" where
  "important_words env used tagged =
     filter (\<lambda>(word, tag). is_content_tag tag
                \<and> lower word \<notin> set (stopwords_english env)
                \<and> lower word \<notin> used
                \<and> length word > 3) tagged"

definition similar_words :: "(string \<times> string) list \<Rightarrow> string \<Rightarrow> string \<Rightarrow> string list" where
  "similar_words tagged word_to_replace tag =
     map fst (filter (\<lambda>(w, t). t = tag \<and> w \<noteq> word_to_replace) tagged)"

definition question_text :: "string \<Rightarrow> string \<Rightarrow> string" where
  "question_text sentence word_to_replace =
     ''What is the correct word in: '' @ [CHR 0x27] @ replace_all word_to_replace blank sentence
       @ [CHR 0x27]"

text \<open>\<open>generic_options.get(tag_prefix, generic_options['NN'])\<close> of \<open>generate_quiz\<close>.\<close>

definition generic_options :: "string \<Rightarrow> string list" where
  "generic_options tag_prefix =
     (if tag_prefix = ''VB''
        then [''make'', ''take'', ''give'', ''find'', ''show'', ''create'', ''perform'']
      else if tag_prefix = ''JJ''
        then [''good'', ''new'', ''first'', ''last'', ''long'', ''important'', ''different'']
      else [''object'', ''item'', ''thing'', ''element'', ''part'', ''system'', ''component''])"

text \<open>
  The loop \<open>while len(options) < 4\<close> of \<open>generate_quiz\<close>: one draw per iteration, and the
  generic word is appended when it is not among the options yet.
\<close>

fun fill_generic :: "string list \<Rightarrow> string list \<Rightarrow> nat list \<Rightarrow> (string list \<times> nat list) option" where
  "fill_generic gen options [] = (if length options < 4 then None else Some (options, []))"
| "fill_generic gen options (r # rs) =
     (if length options < 4
      then (let generic = choice gen r
            in fill_generic gen (if generic \<notin> set options then options @ [generic] else options) rs)
      else Some (options, r # rs))"

text \<open>The options of one MCQ question of \<open>generate_quiz\<close>, up to and including the shuffle.\<close>

definition mcq_options ::
  "(string \<times> string) list \<Rightarrow> string \<Rightarrow> string \<Rightarrow> nat list \<Rightarrow> (string list \<times> nat list) option" where
  "mcq_options tagged word_to_replace tag rs =
     (let similar = similar_words tagged word_to_replace tag
      in case (if similar \<noteq> [] then sample similar (min 2 (length similar)) rs
               else Some ([], rs)) of
           None \<Rightarrow> None
         | Some (picked, rs1) \<Rightarrow>
             (let gen = generic_options (take 2 tag)
              in case fill_generic gen ([word_to_replace] @ picked) rs1 of
                   None \<Rightarrow> None
                 | Some (options, rs2) \<Rightarrow>
                     (case fill_generic gen (take 4 (dict_fromkeys options)) rs2 of
                        None \<Rightarrow> None
                      | Some (options', rs3) \<Rightarrow> shuffle options' rs3)))"

text \<open>
  The body of the MCQ loop for one sentence. Its result is \<open>None\<close> when the random source
  runs out, an exception, or the question with its answer word (\<open>None\<close> for a sentence that
  is skipped) and the rest of the random source.
\<close>

definition mcq_body ::
  "nlp \<Rightarrow> string \<Rightarrow> string set \<Rightarrow> nat list
     \<Rightarrow> (error + (question \<times> string) option \<times> nat list) option" where
  "mcq_body env sentence used rs =
     (let tagged = pos_tag env (word_tokenize env sentence);
          important = important_words env used tagged
      in if important = [] then Some (Inr (None, rs))
         else case rs of
           [] \<Rightarrow> None
         | r # rs1 \<Rightarrow>
             (let (word_to_replace, tag) = choice important r
              in if lower word_to_replace \<in> used then Some (Inr (None, rs1))
                 else case mcq_options tagged word_to_replace tag rs1 of
                   None \<Rightarrow> None
                 | Some (options, rs2) \<Rightarrow>
                     (case index_of options word_to_replace of
                        None \<Rightarrow> Some (Inl (ValueError (word_to_replace @ '' is not in list'')))
                      | Some correct_index \<Rightarrow>
                          Some (Inr (Some (\<lparr>q_question = question_text sentence word_to_replace,
                                             q_options = Some options,
                                             q_correct = correct_index,
                                             q_type = ''mcq'',
                                             q_correct_answer = None\<rparr>, word_to_replace),
                                     rs2)))))"

text \<open>The MCQ loop over the sentences: \<open>qs\<close> and \<open>used\<close> are \<open>questions\<close> and \<open>used_answers\<close>.\<close>

fun mcq_loop ::
  "nlp \<Rightarrow> int \<Rightarrow> string list \<Rightarrow> question list \<Rightarrow> string set \<Rightarrow> nat list
     \<Rightarrow> (error + question list) option" where
  "mcq_loop env num_questions [] qs used rs = Some (Inr qs)"
| "mcq_loop env num_questions (sentence # rest) qs used rs =
     (case mcq_body env sentence used rs of
        None \<Rightarrow> None
      | Some (Inl e) \<Rightarrow> Some (Inl e)
      | Some (Inr (None, rs')) \<Rightarrow> mcq_loop env num_questions rest qs used rs'
      | Some (Inr (Some (q, word), rs')) \<Rightarrow>
          (if int (length (qs @ [q])) \<ge> num_questions then Some (Inr (qs @ [q]))
           else mcq_loop env num_questions rest (qs @ [q]) (insert (lower word) used) rs'))"

text \<open>The true/false branch: one question per sentence.\<close>

definition true_false_body :: "string \<Rightarrow> nat list \<Rightarrow> (question \<times> nat list) option" where
  "true_false_body sentence rs =
     (case rs of
        [] \<Rightarrow> None
      | r # rs1 \<Rightarrow>
          (let correct = choice [True, False] r;
               tf = (\<lambda>s. \<lparr>q_question = s, q_options = None,
                           q_correct = (if correct then 0 else 1), q_type = ''true_false'',
                           q_correct_answer = None\<rparr>);
               words = py_split sentence
           in if \<not> correct \<and> length words > 3
              then (case rs1 of
                      r2 # r3 # rs2 \<Rightarrow>
                        Some (tf (join_space
                                (words[r2 mod length words :=
                                   choice [''not'', ''never'', ''rarely'', ''hardly''] r3])), rs2)
                    | _ \<Rightarrow> None)
              else Some (tf sentence, rs1)))"

fun true_false_loop :: "string list \<Rightarrow> question list \<Rightarrow> nat list \<Rightarrow> (error + question list) option" where
  "true_false_loop [] qs rs = Some (Inr qs)"
| "true_false_loop (sentence # rest) qs rs =
     (case true_false_body sentence rs of
        None \<Rightarrow> None
      | Some (q, rs') \<Rightarrow> true_false_loop rest (qs @ [q]) rs')"

text \<open>\<open>generate_fill_blanks\<close>: the comprehension over \<open>enumerate(tagged)\<close>, the body, the loop.\<close>

definition fill_important_words ::
  "nlp \<Rightarrow> string set \<Rightarrow> (string \<times> string) list \<Rightarrow> (string \<times> nat) list" where
  "fill_important_words env used tagged =
     map (\<lambda>(i, (word, tag)). (word, i))
       (filter (\<lambda>(i, (word, tag)).
                  (startswith tag ''NN'' \<or> startswith tag ''JJ'' \<or> startswith tag ''VB'')
                  \<and> length word > 3
                  \<and> lower word \<notin> set (stopwords_english env)
                  \<and> lower word \<notin> used) (enumerate 0 tagged))"

definition fill_blanks_body ::
  "nlp \<Rightarrow> string \<Rightarrow> string set \<Rightarrow> nat list \<Rightarrow> ((question \<times> string) option \<times> nat list) option" where
  "fill_blanks_body env sentence used rs =
     (let tagged = pos_tag env (word_tokenize env sentence);
          important = fill_important_words env used tagged
      in if important = [] then Some (None, rs)
         else case rs of
           [] \<Rightarrow> None
         | r # rs1 \<Rightarrow>
             (let word = fst (choice important r)
              in if lower word \<in> used then Some (None, rs1)
                 else Some (Some (\<lparr>q_question = replace_first word blank sentence,
                                    q_options = Some [word],
                                    q_correct = 0,
                                    q_type = ''fill_blanks'',
                                    q_correct_answer = None\<rparr>, word), rs1)))"

fun fill_blanks_loop ::
  "nlp \<Rightarrow> int \<Rightarrow> string list \<Rightarrow> question list \<Rightarrow> string set \<Rightarrow> nat list
     \<Rightarrow> (error + question list) option" where
  "fill_blanks_loop env num_questions [] qs used rs = Some (Inr qs)"
| "fill_blanks_loop env num_questions (sentence # rest) qs used rs =
     (if int (length qs) \<ge> num_questions then Some (Inr qs)
      else case fill_blanks_body env sentence used rs of
             None \<Rightarrow> None
           | Some (None, rs') \<Rightarrow> fill_blanks_loop env num_questions rest qs used rs'
           | Some (Some (q, word), rs') \<Rightarrow>
               fill_blanks_loop env num_questions rest (qs @ [q]) (insert (lower word) used) rs')"

definition generate_fill_blanks ::
  "nlp \<Rightarrow> string \<Rightarrow> int \<Rightarrow> nat list \<Rightarrow> (error + question list) option" where
  "generate_fill_blanks env text num_questions rs =
     fill_blanks_loop env num_questions (sent_tokenize env text) [] {} rs"

text \<open>
  \<open>generate_quiz\<close>: the handler \<open>except Exception\<close> logs and raises the same exception again.
\<close>

definition generate_quiz ::
  "nlp \<Rightarrow> string \<Rightarrow> int \<Rightarrow> string \<Rightarrow> nat list \<Rightarrow> (error + question list) option" where
  "generate_quiz env file_path num_questions qtype rs =
     (case extract_text env file_path of
        Inl e \<Rightarrow> Some (Inl e)
      | Inr text \<Rightarrow>
          if qtype = ''mcq''
            then mcq_loop env num_questions
                   (py_take (num_questions * 2) (sent_tokenize env text)) [] {} rs
          else if qtype = ''true_false''
            then true_false_loop (py_take num_questions (sent_tokenize env text)) [] rs
          else if qtype = ''fill_blanks''
            then generate_fill_blanks env text num_questions rs
          else Some (Inl (ValueError (''Unsupported quiz type: '' @ qtype))))"



section \<open>objective.py and subjective.py\<close>

text \<open>More string methods, on ASCII text: \<open>isalnum\<close>, \<open>capitalize\<close>, \<open>in\<close> on strings, \<open>strip\<close>.\<close>

definition is_alnum_char :: "char \<Rightarrow> bool" where
  "is_alnum_char c =
     (let n = (of_char c :: nat)
      in (48 \<le> n \<and> n \<le> 57) \<or> (65 \<le> n \<and> n \<le> 90) \<or> (97 \<le> n \<and> n \<le> 122))"

definition isalnum :: "string \<Rightarrow> bool" where
  "isalnum s = (s \<noteq> [] \<and> list_all is_alnum_char s)"

fun upper_char :: "char \<Rightarrow> char" where
  "upper_char (Char b0 b1 b2 b3 b4 b5 b6 b7) =
     (let n = (of_char (Char b0 b1 b2 b3 b4 b5 b6 b7) :: nat)
      in if 97 \<le> n \<and> n \<le> 122 then Char b0 b1 b2 b3 b4 False b6 b7
         else Char b0 b1 b2 b3 b4 b5 b6 b7)"

fun capitalize :: "string \<Rightarrow> string" where
  "capitalize [] = []"
| "capitalize (c # cs) = upper_char c # lower cs"

fun is_substring :: "string \<Rightarrow> string \<Rightarrow> bool" where
  "is_substring sub [] = (sub = [])"
| "is_substring sub (c # cs) = (take (length sub) (c # cs) = sub \<or> is_substring sub cs)"

definition py_strip :: "string \<Rightarrow> string" where
  "py_strip s = rev (dropWhile is_space (rev (dropWhile is_space s)))"

text \<open>
  The pretrained models of the two classes: the text-to-text generator (prompt to generated
  text) and the question-answering pipeline (question and context to answer).
\<close>

record models =
  text2text :: "string \<Rightarrow> string"
  question_answering :: "string \<Rightarrow> string \<Rightarrow> string"

definition error_message :: "error \<Rightarrow> string" where
  "error_message e =
     (case e of ValueError m \<Rightarrow> m | KeyError k \<Rightarrow> [CHR 0x27] @ k @ [CHR 0x27]
      | ZeroDivisionError \<Rightarrow> ''division by zero'' | Exception m \<Rightarrow> m)"

text \<open>\<open>ObjectiveTest.preprocess_text\<close>.\<close>

definition objective_preprocess_text :: "nlp \<Rightarrow> string \<Rightarrow> string list" where
  "objective_preprocess_text env text =
     filter (\<lambda>sent.
        (let words = filter isalnum (word_tokenize env (lower sent))
         in length words > 8
            \<and> length (filter (\<lambda>w. w \<notin> set (stopwords_english env)) words) > 5))
       (sent_tokenize env text)"

text \<open>
  \<open>ObjectiveTest.generate_distractors\<close>. The order of \<open>list(set(...))\<close> is not fixed by
  Python; \<open>random.sample\<close> then selects three positions of it, so every order gives the same
  possible results. With the services total, nothing in the \<open>try\<close> block raises.
\<close>

definition fallback_distractors :: "string \<Rightarrow> string list" where
  "fallback_distractors answer = [''Not '' @ answer, ''None of the above'', ''All of the above'']"

definition generate_distractors ::
  "nlp \<Rightarrow> string \<Rightarrow> string \<Rightarrow> nat list \<Rightarrow> (string list \<times> nat list) option" where
  "generate_distractors env answer context rs =
     (let words = filter (\<lambda>w. isalnum w \<and> w \<notin> set (stopwords_english env))
                    (word_tokenize env (lower context));
          distractors = remdups (map capitalize
                          (filter (\<lambda>w. \<not> is_substring w (lower answer) \<and> length w > 3) words))
      in if length distractors \<ge> 3 then sample distractors 3 rs
         else Some (fallback_distractors answer, rs))"

text \<open>The formatted question: the question line and one line \<open>A) option\<close> per option.\<close>

definition option_letter :: "nat \<Rightarrow> char" where
  "option_letter i = char_of (65 + i)"

definition format_question :: "string \<Rightarrow> string list \<Rightarrow> string" where
  "format_question question options =
     py_strip (question @ [CHR 0x0A] @
       concat (map (\<lambda>(i, opt). [option_letter i] @ '') '' @ opt @ [CHR 0x0A])
                 (enumerate 0 options)))"

fun objective_loop ::
  "nlp \<Rightarrow> models \<Rightarrow> string list \<Rightarrow> string list \<Rightarrow> string list \<Rightarrow> nat list
     \<Rightarrow> (error + string list \<times> string list) option" where
  "objective_loop env m [] qtexts keys rs = Some (Inr (qtexts, keys))"
| "objective_loop env m (context # rest) qtexts keys rs =
     (let question = text2text m (''Generate a factual question about this text: '' @ context);
          correct_answer = question_answering m question context
      in case generate_distractors env correct_answer context rs of
           None \<Rightarrow> None
         | Some (distractors, rs1) \<Rightarrow>
             (case shuffle ([correct_answer] @ distractors) rs1 of
                None \<Rightarrow> None
              | Some (options, rs2) \<Rightarrow>
                  (case index_of options correct_answer of
                     None \<Rightarrow> Some (Inl (ValueError (correct_answer @ '' is not in list'')))
                   | Some i \<Rightarrow>
                       objective_loop env m rest
                         (qtexts @ [format_question question options])
                         (keys @ [[option_letter i]]) rs2)))"

text \<open>
  \<open>ObjectiveTest.generate_test\<close>: every exception of the \<open>try\<close> block is raised again as an
  \<open>Exception\<close> with the prefixed message. \<open>random.sample\<close> refuses a negative size.
\<close>

definition not_enough_content :: string where
  "not_enough_content = ''Not enough content to generate requested number of questions''"

definition objective_generate_test ::
  "nlp \<Rightarrow> models \<Rightarrow> string \<Rightarrow> int \<Rightarrow> nat list \<Rightarrow> (error + string list \<times> string list) option" where
  "objective_generate_test env m text num_questions rs =
     (let wrap = (\<lambda>e. Exception (''Error generating questions: '' @ error_message e));
          meaningful_sentences = objective_preprocess_text env text
      in if int (length meaningful_sentences) < num_questions
           then Some (Inl (wrap (ValueError not_enough_content)))
         else if num_questions < 0
           then Some (Inl (wrap (ValueError ''Sample larger than population or is negative'')))
         else case sample meaningful_sentences (nat num_questions) rs of
           None \<Rightarrow> None
         | Some (selected, rs1) \<Rightarrow>
             (case objective_loop env m selected [] [] rs1 of
                None \<Rightarrow> None
              | Some (Inl e) \<Rightarrow> Some (Inl (wrap e))
              | Some (Inr r) \<Rightarrow> Some (Inr r)))"

text \<open>\<open>SubjectiveTest.preprocess_text\<close>: paragraphs of three sentences, the rest as a last one.\<close>

fun paragraphs_from :: "string list \<Rightarrow> string list \<Rightarrow> string list" where
  "paragraphs_from current_para [] = (if current_para \<noteq> [] then [join_space current_para] else [])"
| "paragraphs_from current_para (sent # rest) =
     (if length (current_para @ [sent]) \<ge> 3
      then join_space (current_para @ [sent]) # paragraphs_from [] rest
      else paragraphs_from (current_para @ [sent]) rest)"

definition subjective_preprocess_text :: "nlp \<Rightarrow> string \<Rightarrow> string list" where
  "subjective_preprocess_text env text = paragraphs_from [] (sent_tokenize env text)"

definition generate_question_types :: "string list" where
  "generate_question_types =
     [''Explain how'', ''Describe why'', ''Analyze the'', ''Compare and contrast'',
      ''What are the implications of'', ''Evaluate the importance of'',
      ''Discuss the relationship between'', ''What conclusions can be drawn about'',
      ''How would you interpret'', ''What evidence supports'']"

fun subjective_loop ::
  "models \<Rightarrow> int \<Rightarrow> string list \<Rightarrow> string list \<Rightarrow> string list \<Rightarrow> nat list
     \<Rightarrow> (string list \<times> string list) option" where
  "subjective_loop m num_questions [] qtexts samples rs = Some (qtexts, samples)"
| "subjective_loop m num_questions (context # rest) qtexts samples [] = None"
| "subjective_loop m num_questions (context # rest) qtexts samples (r # rs) =
     (let question =
            text2text m (''Generate a thought-provoking question about this text: '' @ context);
          transformed_question = choice generate_question_types r @ '' '' @ lower question;
          sample_answer = ''Sample Answer: '' @ context
      in if int (length (qtexts @ [transformed_question])) \<ge> num_questions
         then Some (qtexts @ [transformed_question], samples @ [sample_answer])
         else subjective_loop m num_questions rest
                (qtexts @ [transformed_question]) (samples @ [sample_answer]) rs)"

definition subjective_generate_test ::
  "nlp \<Rightarrow> models \<Rightarrow> string \<Rightarrow> int \<Rightarrow> nat list \<Rightarrow> (error + string list \<times> string list) option" where
  "subjective_generate_test env m text num_questions rs =
     (let wrap = (\<lambda>e. Exception (''Error generating subjective questions: '' @ error_message e));
          paragraphs = subjective_preprocess_text env text
      in if int (length paragraphs) < num_questions
           then Some (Inl (wrap (ValueError not_enough_content)))
         else if num_questions < 0
           then Some (Inl (wrap (ValueError ''Sample larger than population or is negative'')))
         else case sample paragraphs (nat num_questions) rs of
           None \<Rightarrow> None
         | Some (selected, rs1) \<Rightarrow>
             (case subjective_loop m num_questions selected [] [] rs1 of
                None \<Rightarrow> None
              | Some r \<Rightarrow> Some (Inr r)))"


section \<open>Properties of generated questions\<close>

text \<open>
  A well-formed MCQ question made from a sentence: four pairwise distinct options, a correct
  index below four, and that index points at a token of the sentence, the one the question
  text was made by replacing.
\<close>

definition mcq_question_of :: "nlp \<Rightarrow> string \<Rightarrow> question \<Rightarrow> bool" where
  "mcq_question_of env sentence q =
     (case q_options q of
        None \<Rightarrow> False
      | Some opts \<Rightarrow>
          length opts = 4 \<and> distinct opts \<and> q_correct q < 4
          \<and> opts ! q_correct q \<in> fst ` set (pos_tag env (word_tokenize env sentence))
          \<and> q_question q = question_text sentence (opts ! q_correct q))"

text \<open>The correct answer word of a question with options: the option at its correct index.\<close>

definition correct_word :: "question \<Rightarrow> string" where
  "correct_word q = (case q_options q of None \<Rightarrow> [] | Some opts \<Rightarrow> opts ! q_correct q)"


section \<open>Example data\<close>

definition ex_questions :: "question list" where
  "ex_questions =
     [\<lparr>q_question = ''The capital of France is _____'', q_options = Some [''Paris''], q_correct = 0,
       q_type = ''fill_blanks'', q_correct_answer = Some ''Paris''\<rparr>,
      \<lparr>q_question = ''The capital of Italy is _____'', q_options = Some [''Rome''], q_correct = 0,
       q_type = ''fill_blanks'', q_correct_answer = Some ''Rome''\<rparr>]"

definition ex_quiz :: quiz where
  "ex_quiz = \<lparr>questions = ex_questions, quiz_type = ''fill_blanks'', created_by = ''teacher'',
     submissions = [], created_at = 0, expires_at = 86400000000, total_attempts = 0,
     average_score = 0\<rparr>"

definition ex_store :: store where
  "ex_store = \<lparr>st_quizzes = [(''AB12CD34'', ex_quiz)], st_submissions = [],
     st_expired_quizzes = [], st_last_cleanup = 0\<rparr>"

text \<open>
  Small stand-ins for the services, for the examples: sentences end at a full stop, words
  are split at whitespace, the words \<open>chase\<close> and \<open>like\<close> are verbs, \<open>small\<close> is an adjective
  and every other word is a plural noun; \<open>the\<close> is the only stop word.
\<close>

fun sentences_from :: "string \<Rightarrow> string \<Rightarrow> string list" where
  "sentences_from cur [] = (if py_strip cur = [] then [] else [py_strip cur])"
| "sentences_from cur (c # cs) =
     (if c = CHR ''.'' then py_strip (cur @ [c]) # sentences_from [] cs
      else sentences_from (cur @ [c]) cs)"

definition ex_tag :: "string \<Rightarrow> string" where
  "ex_tag w = (if w \<in> set [''chase'', ''like''] then ''VBP''
               else if w = ''small'' then ''JJ'' else ''NNS'')"

definition ex_nlp :: nlp where
  "ex_nlp = \<lparr>sent_tokenize = sentences_from [],
             word_tokenize = (\<lambda>s. py_split (filter (\<lambda>c. c \<noteq> CHR ''.'') s)),
             pos_tag = map (\<lambda>w. (w, ex_tag w)),
             stopwords_english = [''the''],
             extract_text = (\<lambda>path. if path = ''cats.pdf''
                                then Inr ''Cats chase mice. Dogs chase cats.''
                              else Inl (ValueError (''Unsupported file type: '' @ path)))\<rparr>"

text \<open>A random source for the examples.\<close>

definition ex_draws :: "nat list" where
  "ex_draws = [1, 0, 1, 2, 3, 0, 0, 0, 0, 0, 0, 0, 1, 2, 3, 0, 0, 0, 0]"

text \<open>Stand-ins for the two pretrained models, and a sentence with enough content words.\<close>

definition ex_models :: models where
  "ex_models = \<lparr>text2text = (\<lambda>prompt. ''Who chase mice?''),
                question_answering = (\<lambda>question context. ''Cats'')\<rparr>"

definition ex_long_text :: string where
  "ex_long_text = ''Hungry grey cats chase quick brown mice across green fields every morning.''"

section \<open>The expired archive\<close>

lemmas ex_defs = ex_store_def ex_quiz_def ex_questions_def

lemma cleanup_step_archives_None:
  "map_of (st_expired_quizzes (cleanup_step s code)) code = Some None"
  by (simp add: cleanup_step_def Let_def update_conv' delete_conv')

lemma cleanup_step_quiz_gone:
  "map_of (st_quizzes (cleanup_step s code)) code = None"
  by (simp add: cleanup_step_def Let_def delete_conv')

lemma cleanup_step_keeps:
  "map_of (st_expired_quizzes s) c = Some None \<Longrightarrow>
   map_of (st_expired_quizzes (cleanup_step s code)) c = Some None"
  "map_of (st_quizzes s) c = None \<Longrightarrow> map_of (st_quizzes (cleanup_step s code)) c = None"
  by (simp_all add: cleanup_step_def Let_def update_conv' delete_conv')

lemma foldl_cleanup_keeps:
  "map_of (st_expired_quizzes s) c = Some None \<Longrightarrow> map_of (st_quizzes s) c = None \<Longrightarrow>
   map_of (st_expired_quizzes (foldl cleanup_step s cs)) c = Some None \<and>
   map_of (st_quizzes (foldl cleanup_step s cs)) c = None"
  by (induction cs arbitrary: s) (simp_all add: cleanup_step_keeps)

lemma foldl_cleanup_archives_None:
  "c \<in> set cs \<Longrightarrow>
   map_of (st_expired_quizzes (foldl cleanup_step s cs)) c = Some None \<and>
   map_of (st_quizzes (foldl cleanup_step s cs)) c = None"
proof (induction cs arbitrary: s)
  case Nil
  then show ?case by simp
next
  case (Cons a cs)
  show ?case
  proof (cases "c = a")
    case True
    then show ?thesis
      using foldl_cleanup_keeps [OF cleanup_step_archives_None cleanup_step_quiz_gone, of s a cs]
      by simp
  next
    case False
    then show ?thesis using Cons by simp
  qed
qed

text \<open>
  Whatever the store holds, the sweep removes every quiz whose expiry has passed from the
  active dict and archives Python's \<open>None\<close> under its code: the quiz was popped before
  \<open>self.quizzes.get(code)\<close> reads it.
\<close>

lemma cleanup_expired_quizzes_loses_quiz:
  assumes "map_of (st_quizzes s) code = Some q" and "now \<ge> expires_at q"
  shows "map_of (st_quizzes (cleanup_expired_quizzes s now tt)) code = None \<and>
         map_of (st_expired_quizzes (cleanup_expired_quizzes s now tt)) code = Some None \<and>
         get_expired_quiz (cleanup_expired_quizzes s now tt) code = None"
proof -
  have "code \<in> set (expired_codes s now)"
    using assms unfolding expired_codes_def by (force dest: map_of_SomeD)
  from foldl_cleanup_archives_None [OF this, of s]
  show ?thesis by (simp add: cleanup_expired_quizzes_def get_expired_quiz_def)
qed

text \<open>
  C1 (the code departs from it): a quiz whose \<open>expires_at\<close> has passed should be moved by
  \<open>cleanup_expired_quizzes\<close> into the expired archive, so that \<open>get_expired_quiz\<close> returns
  its record. On the store holding the single quiz \<open>AB12CD34\<close> with expiry 86400000000,
  swept at that very instant, the quiz leaves the active dict, the archive gets the key with
  the value \<open>None\<close>, and \<open>get_expired_quiz\<close> returns nothing.
\<close>

theorem cleanup_expired_quizzes_archives_nothing:
  "map_of (st_quizzes ex_store) ''AB12CD34'' = Some ex_quiz \<and>
   expires_at ex_quiz = 86400000000 \<and>
   map_of (st_quizzes (cleanup_expired_quizzes ex_store 86400000000 90000)) ''AB12CD34'' = None \<and>
   st_expired_quizzes (cleanup_expired_quizzes ex_store 86400000000 90000) = [(''AB12CD34'', None)] \<and>
   get_expired_quiz (cleanup_expired_quizzes ex_store 86400000000 90000) ''AB12CD34'' = None"
  by (simp add: cleanup_expired_quizzes_def expired_codes_def cleanup_step_def
      get_expired_quiz_def ex_defs)

section \<open>Expiry of a created quiz\<close>

text \<open>
  \<open>create_quiz\<close> reads the clock twice: \<open>created_at\<close> is the first reading and \<open>expires_at\<close>
  is the second reading plus 24 hours (86400000000 microseconds). With the readings 0 and 1
  the quiz whose \<open>created_at\<close> is 0 is still returned by \<open>get_quiz\<close> at the time
  0 + 24 h.
\<close>

theorem get_quiz_expiry_counterexample:
  "map_option created_at
     (get_quiz (fst (create_quiz (init_store 0) ex_questions ''mcq'' ''teacher'' 10 0 10
                       ''AB12CD34'' 0 1)) ''AB12CD34'' (0 + 86400000000)) = Some 0"
  by (simp add: create_quiz_def init_store_def cleanup_interval_def Let_def get_quiz_def
      expiry_time_def)

text \<open>
  C4 (as the code has it): for a quiz created with the clock readings \<open>T\<close> (stored as
  \<open>created_at\<close>) and \<open>T'\<close> (the one \<open>expires_at\<close> is computed from), \<open>get_quiz\<close> returns
  the quiz at every time strictly before \<open>T'\<close> + 24 h and is not found at every time at or
  after it, while the quiz is still held by the store. As the clock does not run backwards
  (\<open>T \<le> T'\<close>), the quiz is returned at every time strictly before \<open>T\<close> + 24 h; when the two
  readings coincide it is not found at every time at or after \<open>T\<close> + 24 h.
\<close>

theorem get_quiz_expiry:
  "create_quiz s qs qtype creator tt now_cl tt_cl code T T' = (s', c) \<Longrightarrow>
   c = code \<and>
   (\<exists>q. map_of (st_quizzes s') c = Some q \<and> questions q = qs \<and> created_at q = T \<and>
      expires_at q = T' + 86400000000 \<and>
      (\<forall>now. now < T' + 86400000000 \<longrightarrow> get_quiz s' c now = Some q) \<and>
      (\<forall>now. now \<ge> T' + 86400000000 \<longrightarrow> get_quiz s' c now = None) \<and>
      (T \<le> T' \<longrightarrow> (\<forall>now. now < T + 86400000000 \<longrightarrow> get_quiz s' c now = Some q)) \<and>
      (T' = T \<longrightarrow> (\<forall>now. now \<ge> T + 86400000000 \<longrightarrow> get_quiz s' c now = None)))"
  by (auto simp add: create_quiz_def Let_def update_conv' get_quiz_def expiry_time_def
      split: if_splits)

theorem get_quiz_expiry_witness:
  "\<exists>s' c q. create_quiz (init_store 0) ex_questions ''mcq'' ''teacher'' 10 0 10 ''AB12CD34'' 0 0
       = (s', c)
     \<and> get_quiz s' c 86340000000 = Some q \<and> questions q = ex_questions
     \<and> get_quiz s' c 86400000000 = None
     \<and> get_quiz s' c 86460000000 = None \<and> map_of (st_quizzes s') c = Some q"
proof -
  obtain s' c where cr:
    "create_quiz (init_store 0) ex_questions ''mcq'' ''teacher'' 10 0 10 ''AB12CD34'' 0 0 = (s', c)"
    by (cases "create_quiz (init_store 0) ex_questions ''mcq'' ''teacher'' 10 0 10 ''AB12CD34'' 0 0")
  from get_quiz_expiry [OF cr] obtain q where
    q: "map_of (st_quizzes s') c = Some q" "questions q = ex_questions"
       "(0::int) \<le> 0 \<longrightarrow> (\<forall>now. now < 0 + 86400000000 \<longrightarrow> get_quiz s' c now = Some q)"
       "(0::int) = 0 \<longrightarrow> (\<forall>now. now \<ge> 0 + 86400000000 \<longrightarrow> get_quiz s' c now = None)"
    by blast
  have "get_quiz s' c 86340000000 = Some q" using q(3) by simp
  moreover have "get_quiz s' c 86400000000 = None" using q(4) by simp
  moreover have "get_quiz s' c 86460000000 = None" using q(4) by simp
  ultimately show ?thesis using cr q(1,2) by blast
qed

section \<open>Submissions\<close>

text \<open>
  C3: for an active quiz and an answers list whose length differs from the number of
  questions, \<open>submit_quiz\<close> fails with the answer-count error (the \<open>ValueError\<close> with the
  message below) and the quiz's \<open>total_attempts\<close> is what it was.
\<close>

theorem submit_quiz_answer_count_mismatch:
  assumes "get_quiz s code now_get = Some q" and "length answers \<noteq> length (questions q)"
  shows "\<exists>s' q'. submit_quiz s code student answers now_get now_sub =
            (s', Inl (ValueError ''Number of answers does not match number of questions''))
         \<and> map_of (st_quizzes s') code = Some q' \<and> total_attempts q' = total_attempts q"
  using assms by (simp add: submit_quiz_def Let_def update_conv')

theorem submit_quiz_answer_count_mismatch_witness:
  "get_quiz ex_store ''AB12CD34'' 5 = Some ex_quiz \<and>
   length [''Paris''] \<noteq> length (questions ex_quiz) \<and>
   (\<exists>s' q'. submit_quiz ex_store ''AB12CD34'' ''Bob'' [''Paris''] 5 6 =
            (s', Inl (ValueError ''Number of answers does not match number of questions''))
         \<and> map_of (st_quizzes s') ''AB12CD34'' = Some q'
         \<and> total_attempts q' = total_attempts ex_quiz)"
proof -
  have h1: "get_quiz ex_store ''AB12CD34'' 5 = Some ex_quiz"
    by (simp add: get_quiz_def ex_defs)
  have h2: "length [''Paris''] \<noteq> length (questions ex_quiz)"
    by (simp add: ex_defs)
  from submit_quiz_answer_count_mismatch [OF h1 h2, of "''Bob''" 6] h1 h2
  show ?thesis by blast
qed

text \<open>
  C10: the submission is appended to the store's submissions dict and to the quiz's own
  submissions list before the answer count is checked, so after the failure it stands in
  both, while \<open>total_attempts\<close> and \<open>average_score\<close> are unchanged.
\<close>

theorem submit_quiz_mismatch_keeps_submission:
  assumes "get_quiz s code now_get = Some q" and "length answers \<noteq> length (questions q)"
  shows "\<exists>s' q'. submit_quiz s code student answers now_get now_sub =
            (s', Inl (ValueError ''Number of answers does not match number of questions''))
         \<and> map_of (st_quizzes s') code = Some q'
         \<and> submissions q' = submissions q @
              [\<lparr>sub_student_name = student, sub_answers = answers, sub_timestamp = now_sub\<rparr>]
         \<and> map_of (st_submissions s') code =
             Some ((case map_of (st_submissions s) code of None \<Rightarrow> [] | Some l \<Rightarrow> l) @
              [\<lparr>sub_student_name = student, sub_answers = answers, sub_timestamp = now_sub\<rparr>])
         \<and> total_attempts q' = total_attempts q \<and> average_score q' = average_score q"
  using assms by (simp add: submit_quiz_def Let_def update_conv')

theorem submit_quiz_mismatch_keeps_submission_witness:
  "\<exists>s' q'. submit_quiz ex_store ''AB12CD34'' ''Bob'' [''Paris''] 5 6 =
            (s', Inl (ValueError ''Number of answers does not match number of questions''))
         \<and> map_of (st_quizzes s') ''AB12CD34'' = Some q'
         \<and> submissions q' =
              [\<lparr>sub_student_name = ''Bob'', sub_answers = [''Paris''], sub_timestamp = 6\<rparr>]
         \<and> map_of (st_submissions s') ''AB12CD34'' =
             Some [\<lparr>sub_student_name = ''Bob'', sub_answers = [''Paris''], sub_timestamp = 6\<rparr>]
         \<and> total_attempts q' = 0 \<and> average_score q' = 0"
proof -
  have h1: "get_quiz ex_store ''AB12CD34'' 5 = Some ex_quiz"
    by (simp add: get_quiz_def ex_defs)
  have h2: "length [''Paris''] \<noteq> length (questions ex_quiz)"
    by (simp add: ex_defs)
  from submit_quiz_mismatch_keeps_submission [OF h1 h2, of "''Bob''" 6]
  show ?thesis by (simp add: ex_defs)
qed

section \<open>The running average\<close>

lemma submit_quiz_success_stats:
  assumes "submit_quiz s code student answers now_get now_sub = (s', Inr r)"
      and "map_of (st_quizzes s) code = Some q"
  shows "\<exists>q'. map_of (st_quizzes s') code = Some q'
           \<and> total_attempts q' = total_attempts q + 1
           \<and> average_score q' =
               (average_score q * (real (total_attempts q') - 1) + r_score_percentage r)
                 / real (total_attempts q')"
  using assms
  by (auto simp add: submit_quiz_def get_quiz_def Let_def update_conv'
           split: option.splits if_splits sum.splits)

lemma submit_quiz_success_mean:
  assumes "submit_quiz s code student answers now_get now_sub = (s', Inr r)"
      and "map_of (st_quizzes s) code = Some q"
  shows "\<exists>q'. map_of (st_quizzes s') code = Some q'
           \<and> total_attempts q' = total_attempts q + 1
           \<and> average_score q' * real (total_attempts q') =
               average_score q * real (total_attempts q) + r_score_percentage r"
proof -
  from submit_quiz_success_stats [OF assms] obtain q' where
    q': "map_of (st_quizzes s') code = Some q'" "total_attempts q' = total_attempts q + 1"
    "average_score q' =
               (average_score q * (real (total_attempts q') - 1) + r_score_percentage r)
                 / real (total_attempts q')" by blast
  have "real (total_attempts q') \<noteq> 0" using q'(2) by simp
  then have "average_score q' * real (total_attempts q') =
      average_score q * (real (total_attempts q') - 1) + r_score_percentage r"
    using q'(3) by simp
  then show ?thesis using q'(1,2) by simp
qed

lemma submit_all_mean:
  "submit_all s code subs = (s', Inr rs) \<Longrightarrow> map_of (st_quizzes s) code = Some q \<Longrightarrow>
   \<exists>q'. map_of (st_quizzes s') code = Some q'
        \<and> total_attempts q' = total_attempts q + length rs
        \<and> length rs = length subs
        \<and> average_score q' * real (total_attempts q') =
            average_score q * real (total_attempts q) + sum_list (map r_score_percentage rs)"
proof (induction subs arbitrary: s q rs)
  case Nil
  then show ?case by simp
next
  case (Cons sub subs)
  obtain student answers now_get now_sub where sub: "sub = (student, answers, now_get, now_sub)"
    by (cases sub) auto
  from Cons.prems(1) sub obtain s1 r rs' where
    step: "submit_quiz s code student answers now_get now_sub = (s1, Inr r)" and
    rest: "submit_all s1 code subs = (s', Inr rs')" and rs: "rs = r # rs'"
    by (auto split: prod.splits sum.splits)
  from submit_quiz_success_mean [OF step Cons.prems(2)] obtain q1 where
    q1: "map_of (st_quizzes s1) code = Some q1" "total_attempts q1 = total_attempts q + 1"
    "average_score q1 * real (total_attempts q1) =
               average_score q * real (total_attempts q) + r_score_percentage r" by blast
  from Cons.IH [OF rest q1(1)] obtain q' where
    q': "map_of (st_quizzes s') code = Some q'"
        "total_attempts q' = total_attempts q1 + length rs'"
        "length rs' = length subs"
        "average_score q' * real (total_attempts q') =
            average_score q1 * real (total_attempts q1) + sum_list (map r_score_percentage rs')"
    by blast
  show ?case using q' q1 rs by simp
qed

text \<open>
  C5: every successful \<open>submit_quiz\<close> adds exactly 1 to the quiz's \<open>total_attempts\<close> and sets
  \<open>average_score\<close> to (old average * (new attempts - 1) + this score percentage) / new
  attempts; so, in exact arithmetic, after any non-empty sequence of successful submissions
  to a quiz that had no attempt, \<open>average_score\<close> is the mean of the submitted score
  percentages.
\<close>

theorem submit_quiz_running_mean:
  assumes "map_of (st_quizzes s) code = Some q"
  shows "(\<forall>student answers now_get now_sub s' r.
            submit_quiz s code student answers now_get now_sub = (s', Inr r) \<longrightarrow>
            (\<exists>q'. map_of (st_quizzes s') code = Some q'
               \<and> total_attempts q' = total_attempts q + 1
               \<and> average_score q' =
                   (average_score q * (real (total_attempts q') - 1) + r_score_percentage r)
                     / real (total_attempts q')))
       \<and> (\<forall>subs s' rs.
            total_attempts q = 0 \<and> subs \<noteq> [] \<and> submit_all s code subs = (s', Inr rs) \<longrightarrow>
            (\<exists>q'. map_of (st_quizzes s') code = Some q'
               \<and> total_attempts q' = length subs
               \<and> average_score q' = sum_list (map r_score_percentage rs) / real (length rs)))"
proof (intro conjI allI impI)
  fix student answers now_get now_sub s' r
  assume "submit_quiz s code student answers now_get now_sub = (s', Inr r)"
  from submit_quiz_success_stats [OF this assms]
  show "\<exists>q'. map_of (st_quizzes s') code = Some q'
               \<and> total_attempts q' = total_attempts q + 1
               \<and> average_score q' =
                   (average_score q * (real (total_attempts q') - 1) + r_score_percentage r)
                     / real (total_attempts q')" .
next
  fix subs s' rs
  assume a: "total_attempts q = 0 \<and> subs \<noteq> [] \<and> submit_all s code subs = (s', Inr rs)"
  then have run: "submit_all s code subs = (s', Inr rs)" by simp
  from submit_all_mean [OF run assms] obtain q' where
    q': "map_of (st_quizzes s') code = Some q'"
        "total_attempts q' = total_attempts q + length rs"
        "length rs = length subs"
        "average_score q' * real (total_attempts q') =
            average_score q * real (total_attempts q) + sum_list (map r_score_percentage rs)"
    by blast
  have n: "total_attempts q' = length rs" "length rs \<noteq> 0" using q'(2,3) a by auto
  have "average_score q' * real (length rs) = sum_list (map r_score_percentage rs)"
    using q'(4) n a by simp
  then have "average_score q' = sum_list (map r_score_percentage rs) / real (length rs)"
    using n(2) by (simp add: field_simps)
  then show "\<exists>q'. map_of (st_quizzes s') code = Some q'
               \<and> total_attempts q' = length subs
               \<and> average_score q' = sum_list (map r_score_percentage rs) / real (length rs)"
    using q'(1,3) n(1) by simp
qed

lemma ex_store_two_submissions:
  "\<exists>s' r1 r2. submit_all ex_store ''AB12CD34''
       [(''Ann'', [''paris'', ''Milan''], 5, 6), (''Bob'', [''PARIS'', ''rome''], 7, 8)]
         = (s', Inr [r1, r2])
     \<and> r_score_percentage r1 = 50 \<and> r_score_percentage r2 = 100"
  by (simp add: submit_quiz_def get_quiz_def ex_defs Let_def lower_def)

lemma ex_store_one_submission:
  "\<exists>s' r. submit_quiz ex_store ''AB12CD34'' ''Ann'' [''paris'', ''Milan''] 5 6 = (s', Inr r)
     \<and> r_score_percentage r = 50"
  by (simp add: submit_quiz_def get_quiz_def ex_defs Let_def lower_def)

theorem submit_quiz_running_mean_witness:
  "(\<exists>s' r q'. submit_quiz ex_store ''AB12CD34'' ''Ann'' [''paris'', ''Milan''] 5 6 = (s', Inr r)
     \<and> map_of (st_quizzes s') ''AB12CD34'' = Some q' \<and> total_attempts q' = 1
     \<and> average_score q' = 50)
   \<and> (\<exists>s' rs q'. submit_all ex_store ''AB12CD34''
       [(''Ann'', [''paris'', ''Milan''], 5, 6), (''Bob'', [''PARIS'', ''rome''], 7, 8)]
         = (s', Inr rs)
     \<and> map_of (st_quizzes s') ''AB12CD34'' = Some q' \<and> total_attempts q' = 2
     \<and> average_score q' = 75)"
proof -
  have h: "map_of (st_quizzes ex_store) ''AB12CD34'' = Some ex_quiz" by (simp add: ex_defs)
  have z: "total_attempts ex_quiz = 0" "average_score ex_quiz = 0" by (simp_all add: ex_defs)
  note mean = submit_quiz_running_mean [OF h]
  from ex_store_one_submission obtain s1 r where
    one: "submit_quiz ex_store ''AB12CD34'' ''Ann'' [''paris'', ''Milan''] 5 6 = (s1, Inr r)"
    and pr: "r_score_percentage r = 50" by blast
  from mean one obtain q1 where
    "map_of (st_quizzes s1) ''AB12CD34'' = Some q1"
    "total_attempts q1 = total_attempts ex_quiz + 1"
    "average_score q1 =
       (average_score ex_quiz * (real (total_attempts q1) - 1) + r_score_percentage r)
         / real (total_attempts q1)"
    by blast
  then have first: "\<exists>s' r q'.
      submit_quiz ex_store ''AB12CD34'' ''Ann'' [''paris'', ''Milan''] 5 6 = (s', Inr r)
     \<and> map_of (st_quizzes s') ''AB12CD34'' = Some q' \<and> total_attempts q' = 1
     \<and> average_score q' = 50"
    using one pr z by auto
  from ex_store_two_submissions obtain s' r1 r2 where run: "submit_all ex_store ''AB12CD34''
       [(''Ann'', [''paris'', ''Milan''], 5, 6), (''Bob'', [''PARIS'', ''rome''], 7, 8)]
         = (s', Inr [r1, r2])"
     and p: "r_score_percentage r1 = 50" "r_score_percentage r2 = 100" by blast
  from mean z(1) run obtain q' where
    "map_of (st_quizzes s') ''AB12CD34'' = Some q'"
    "total_attempts q' = length [(''Ann'', [''paris'', ''Milan''], 5::int, 6::int),
                                 (''Bob'', [''PARIS'', ''rome''], 7, 8)]"
    "average_score q' = sum_list (map r_score_percentage [r1, r2]) / real (length [r1, r2])"
    by blast
  then have "\<exists>s' rs q'. submit_all ex_store ''AB12CD34''
       [(''Ann'', [''paris'', ''Milan''], 5, 6), (''Bob'', [''PARIS'', ''rome''], 7, 8)]
         = (s', Inr rs)
     \<and> map_of (st_quizzes s') ''AB12CD34'' = Some q' \<and> total_attempts q' = 2
     \<and> average_score q' = 75"
    using run p by simp
  with first show ?thesis by blast
qed

section \<open>Lists, sampling and the option loops\<close>

lemma index_of_Some: "index_of xs x = Some i \<Longrightarrow> i < length xs \<and> xs ! i = x"
  by (induction xs arbitrary: i) (auto split: if_splits)

lemma index_of_mem: "x \<in> set xs \<Longrightarrow> \<exists>i. index_of xs x = Some i"
  by (induction xs) auto

lemma dict_fromkeys_distinct: "distinct (dict_fromkeys xs)"
  by (simp add: dict_fromkeys_def)



lemma remdups_snoc: "remdups (ys @ [x]) = remdups (filter (\<lambda>y. y \<noteq> x) ys) @ [x]"
  by (induction ys) auto

lemma dict_fromkeys_Cons:
  "dict_fromkeys (x # xs) = x # rev (remdups (filter (\<lambda>y. y \<noteq> x) (rev xs)))"
  by (simp add: dict_fromkeys_def remdups_snoc)

lemma sample_props:
  "sample xs k rs = Some (ys, rs') \<Longrightarrow> k \<le> length xs \<Longrightarrow>
   length ys = k \<and> set ys \<subseteq> set xs \<and> (distinct xs \<longrightarrow> distinct ys)"
proof (induction k arbitrary: xs rs ys)
  case 0
  then show ?case by simp
next
  case (Suc k)
  have "rs \<noteq> []" using Suc.prems(1) by (cases rs) simp_all
  then obtain r rs1 where rs: "rs = r # rs1" by (cases rs) simp_all
  define i where "i = r mod length xs"
  define xs' where "xs' = take i xs @ drop (Suc i) xs"
  have ne: "length xs > 0" using Suc.prems(2) by (cases xs) simp_all
  then have i: "i < length xs" by (simp add: i_def)
  from Suc.prems(1) rs obtain zs where
    rec: "sample xs' k rs1 = Some (zs, rs')" and ys: "ys = xs ! i # zs"
    by (auto simp: Let_def i_def xs'_def split: option.splits)
  have len: "k \<le> length xs'" using Suc.prems(2) i by (simp add: xs'_def)
  from Suc.IH [OF rec len] have
    ih: "length zs = k" "set zs \<subseteq> set xs'" "distinct xs' \<longrightarrow> distinct zs" by auto
  have sub: "set xs' \<subseteq> set xs"
    unfolding xs'_def using set_take_subset [of i xs] set_drop_subset [of "Suc i" xs] by auto
  have d: "distinct xs \<Longrightarrow> distinct xs' \<and> xs ! i \<notin> set xs'"
  proof -
    assume dx: "distinct xs"
    have "xs = take i xs @ xs ! i # drop (Suc i) xs" using i by (rule id_take_nth_drop)
    then have "distinct (take i xs @ xs ! i # drop (Suc i) xs)" using dx by simp
    then show ?thesis unfolding xs'_def by auto
  qed
  show ?case using ih sub d i ys by auto
qed

lemma shuffle_props:
  assumes "shuffle xs rs = Some (ys, rs')" and "distinct xs"
  shows "length ys = length xs \<and> set ys = set xs \<and> distinct ys"
proof -
  from sample_props [of xs "length xs" rs ys rs'] assms have
    p: "length ys = length xs" "set ys \<subseteq> set xs" "distinct ys" by (auto simp: shuffle_def)
  have "card (set ys) = card (set xs)"
    using p(1,3) assms(2) by (simp add: distinct_card)
  then have "set ys = set xs" using p(2) by (simp add: card_subset_eq)
  then show ?thesis using p by simp
qed

lemma fill_generic_props:
  "fill_generic gen opts rs = Some (opts', rs') \<Longrightarrow> length opts \<le> 4 \<Longrightarrow>
   length opts' = 4 \<and> set opts \<subseteq> set opts' \<and> (distinct opts \<longrightarrow> distinct opts')"
proof (induction rs arbitrary: opts)
  case Nil
  then show ?case by (auto split: if_splits)
next
  case (Cons r rs)
  show ?case
  proof (cases "length opts < 4")
    case True
    define opts1 where
      "opts1 = (if choice gen r \<notin> set opts then opts @ [choice gen r] else opts)"
    from Cons.prems(1) True have rec: "fill_generic gen opts1 rs = Some (opts', rs')"
      by (simp add: Let_def opts1_def)
    have "length opts1 \<le> 4" using True by (simp add: opts1_def)
    from Cons.IH [OF rec this] show ?thesis by (auto simp: opts1_def split: if_splits)
  next
    case False
    then show ?thesis using Cons.prems by auto
  qed
qed

lemma fill_generic_prefix:
  "fill_generic gen opts rs = Some (opts', rs') \<Longrightarrow> \<exists>ext. opts' = opts @ ext"
proof (induction rs arbitrary: opts)
  case Nil
  then show ?case by (auto split: if_splits)
next
  case (Cons r rs)
  show ?case
  proof (cases "length opts < 4")
    case True
    define opts1 where
      "opts1 = (if choice gen r \<notin> set opts then opts @ [choice gen r] else opts)"
    from Cons.prems(1) True have rec: "fill_generic gen opts1 rs = Some (opts', rs')"
      by (simp add: Let_def opts1_def)
    from Cons.IH [OF rec] show ?thesis by (auto simp: opts1_def split: if_splits)
  next
    case False
    then show ?thesis using Cons.prems by auto
  qed
qed


lemma picked_props:
  assumes "(if similar \<noteq> [] then sample similar (min 2 (length similar)) rs else Some ([], rs))
             = Some (picked, rs1)"
  shows "length picked \<le> 2"
proof (cases "similar = []")
  case True
  then show ?thesis using assms by simp
next
  case False
  then have "sample similar (min 2 (length similar)) rs = Some (picked, rs1)" using assms by simp
  from sample_props [OF this] show ?thesis by simp
qed

lemma mcq_options_props:
  assumes "mcq_options tagged w tag rs = Some (opts, rs')"
  shows "length opts = 4 \<and> distinct opts \<and> w \<in> set opts"
proof -
  from assms obtain picked rs1 o1 rs2 o2 rs3 where
    pk: "(if similar_words tagged w tag \<noteq> []
          then sample (similar_words tagged w tag) (min 2 (length (similar_words tagged w tag))) rs
          else Some ([], rs)) = Some (picked, rs1)" and
    f1: "fill_generic (generic_options (take 2 tag)) ([w] @ picked) rs1 = Some (o1, rs2)" and
    f2: "fill_generic (generic_options (take 2 tag)) (take 4 (dict_fromkeys o1)) rs2 = Some (o2, rs3)" and
    sh: "shuffle o2 rs3 = Some (opts, rs')"
    unfolding mcq_options_def Let_def by (auto split: option.splits prod.splits)
  have "length picked \<le> 2" using picked_props [OF pk] .
  then have l0: "length ([w] @ picked) \<le> 4" by simp
  from fill_generic_props [OF f1 l0] have o1: "w \<in> set o1" by auto
  from fill_generic_prefix [OF f1] obtain ext where "o1 = w # picked @ ext" by auto
  then have df: "dict_fromkeys o1 = w # rev (remdups (filter (\<lambda>y. y \<noteq> w) (rev (picked @ ext))))"
    by (simp only: dict_fromkeys_Cons)
  have t4a: "w \<in> set (take 4 (dict_fromkeys o1))" using df by simp
  have t4b: "distinct (take 4 (dict_fromkeys o1))" by (simp add: dict_fromkeys_distinct)
  have t4c: "length (take 4 (dict_fromkeys o1)) \<le> 4" by simp
  from fill_generic_props [OF f2 t4c] t4a t4b have
    o2: "length o2 = 4" "w \<in> set o2" "distinct o2" by auto
  from shuffle_props [OF sh o2(3)] o2 show ?thesis by auto
qed

section \<open>The MCQ strategy\<close>

lemma choice_mem: "xs \<noteq> [] \<Longrightarrow> choice xs r \<in> set xs"
  by (simp add: choice_def)

lemma important_words_mem:
  "(w, tag) \<in> set (important_words env used tagged) \<Longrightarrow>
   (w, tag) \<in> set tagged \<and> lower w \<notin> used \<and> length w > 3 \<and> is_content_tag tag"
  by (auto simp: important_words_def)

lemma mcq_body_skip:
  "important_words env used (pos_tag env (word_tokenize env s)) = [] \<Longrightarrow>
   mcq_body env s used rs = Some (Inr (None, rs))"
  by (simp add: mcq_body_def Let_def)

lemma mcq_body_unfold:
  assumes "important_words env used (pos_tag env (word_tokenize env s)) \<noteq> []"
      and "choice (important_words env used (pos_tag env (word_tokenize env s))) r = (w0, tag)"
  shows "mcq_body env s used (r # rs1) =
     (case mcq_options (pos_tag env (word_tokenize env s)) w0 tag rs1 of
        None \<Rightarrow> None
      | Some (opts, rs2) \<Rightarrow>
          (case index_of opts w0 of
             None \<Rightarrow> Some (Inl (ValueError (w0 @ '' is not in list'')))
           | Some i \<Rightarrow>
               Some (Inr (Some (\<lparr>q_question = question_text s w0, q_options = Some opts,
                                 q_correct = i, q_type = ''mcq'', q_correct_answer = None\<rparr>, w0),
                          rs2))))"
proof -
  have "(w0, tag) \<in> set (important_words env used (pos_tag env (word_tokenize env s)))"
    using choice_mem [OF assms(1), of r] assms(2) by simp
  from important_words_mem [OF this] have "lower w0 \<notin> used" by simp
  then show ?thesis using assms by (simp add: mcq_body_def Let_def)
qed

lemma mcq_body_props:
  assumes "mcq_body env s used rs = Some (Inr (Some (q, w), rs'))"
  shows "mcq_question_of env s q \<and> correct_word q = w \<and> lower w \<notin> used"
proof -
  define tagged where "tagged = pos_tag env (word_tokenize env s)"
  define important where "important = important_words env used tagged"
  have ne: "important \<noteq> []"
    using assms mcq_body_skip [of env used s rs] unfolding important_def tagged_def by auto
  have "rs \<noteq> []"
    using assms ne by (auto simp: mcq_body_def Let_def tagged_def important_def)
  then obtain r rs1 where rs: "rs = r # rs1" by (cases rs) simp_all
  obtain w0 tag where ch: "choice important r = (w0, tag)" by (cases "choice important r")
  have mem: "(w0, tag) \<in> set important" using choice_mem [OF ne, of r] ch by simp
  note imp = important_words_mem [OF mem [unfolded important_def]]
  note unf = mcq_body_unfold [OF ne [unfolded important_def tagged_def]
                                 ch [unfolded important_def tagged_def], of rs1]
  have e1: "(case mcq_options tagged w0 tag rs1 of
        None \<Rightarrow> None
      | Some (opts, rs2) \<Rightarrow>
          (case index_of opts w0 of
             None \<Rightarrow> Some (Inl (ValueError (w0 @ '' is not in list'')))
           | Some i \<Rightarrow>
               Some (Inr (Some (\<lparr>q_question = question_text s w0, q_options = Some opts,
                                 q_correct = i, q_type = ''mcq'', q_correct_answer = None\<rparr>, w0),
                          rs2)))) = Some (Inr (Some (q, w), rs'))"
    using assms unfolding rs unf tagged_def .
  then obtain opts rs2 where mo0: "mcq_options tagged w0 tag rs1 = Some (opts, rs2)"
    by (cases "mcq_options tagged w0 tag rs1") auto
  with e1 have e2: "(case index_of opts w0 of
             None \<Rightarrow> Some (Inl (ValueError (w0 @ '' is not in list'')))
           | Some i \<Rightarrow>
               Some (Inr (Some (\<lparr>q_question = question_text s w0, q_options = Some opts,
                                 q_correct = i, q_type = ''mcq'', q_correct_answer = None\<rparr>, w0),
                          rs2))) = Some (Inr (Some (q, w), rs'))"
    by simp
  then obtain i where ix: "index_of opts w0 = Some i"
    by (cases "index_of opts w0") auto
  with e2 have q: "q = \<lparr>q_question = question_text s w0, q_options = Some opts, q_correct = i,
             q_type = ''mcq'', q_correct_answer = None\<rparr>" and w: "w = w0" and "rs2 = rs'"
    by auto
  with mo0 have mo: "mcq_options tagged w0 tag rs1 = Some (opts, rs')" by simp
  from mcq_options_props [OF mo] have o: "length opts = 4" "distinct opts" by auto
  from index_of_Some [OF ix] o have i: "i < 4" "opts ! i = w0" by auto
  have "w0 \<in> fst ` set tagged" using imp by force
  then show ?thesis using o i q w imp
    by (simp add: mcq_question_of_def correct_word_def tagged_def)
qed

lemma mcq_body_no_error: "mcq_body env s used rs \<noteq> Some (Inl e)"
proof
  assume a: "mcq_body env s used rs = Some (Inl e)"
  define tagged where "tagged = pos_tag env (word_tokenize env s)"
  define important where "important = important_words env used tagged"
  have ne: "important \<noteq> []"
    using a mcq_body_skip [of env used s rs] unfolding important_def tagged_def by auto
  have "rs \<noteq> []"
    using a ne by (auto simp: mcq_body_def Let_def tagged_def important_def)
  then obtain r rs1 where rs: "rs = r # rs1" by (cases rs) simp_all
  obtain w0 tag where ch: "choice important r = (w0, tag)" by (cases "choice important r")
  note unf = mcq_body_unfold [OF ne [unfolded important_def tagged_def]
                                 ch [unfolded important_def tagged_def], of rs1]
  have e1: "(case mcq_options tagged w0 tag rs1 of
        None \<Rightarrow> None
      | Some (opts, rs2) \<Rightarrow>
          (case index_of opts w0 of
             None \<Rightarrow> Some (Inl (ValueError (w0 @ '' is not in list'')))
           | Some i \<Rightarrow>
               Some (Inr (Some (\<lparr>q_question = question_text s w0, q_options = Some opts,
                                 q_correct = i, q_type = ''mcq'', q_correct_answer = None\<rparr>, w0),
                          rs2)))) = Some (Inl e)"
    using a unfolding rs unf tagged_def .
  then obtain opts rs2 where mo: "mcq_options tagged w0 tag rs1 = Some (opts, rs2)"
    by (cases "mcq_options tagged w0 tag rs1") auto
  with e1 have ix: "index_of opts w0 = None"
    by (cases "index_of opts w0") auto
  from mcq_options_props [OF mo] have "w0 \<in> set opts" by simp
  from index_of_mem [OF this] ix show False by simp
qed


lemma mcq_loop_distinct:
  "mcq_loop env n ss qs used rs = Some (Inr out) \<Longrightarrow>
   distinct (map (\<lambda>q. lower (correct_word q)) qs) \<Longrightarrow>
   (\<lambda>q. lower (correct_word q)) ` set qs \<subseteq> used \<Longrightarrow>
   distinct (map (\<lambda>q. lower (correct_word q)) out)"
proof (induction ss arbitrary: qs used rs)
  case Nil
  then show ?case by simp
next
  case (Cons s ss)
  show ?case
  proof (cases "mcq_body env s used rs")
    case None
    then show ?thesis using Cons.prems(1) by simp
  next
    case (Some res)
    show ?thesis
    proof (cases res)
      case (Inl e)
      then show ?thesis using Cons.prems(1) Some by simp
    next
      case (Inr pr)
      obtain oq rs' where pr: "pr = (oq, rs')" by (cases pr)
      show ?thesis
      proof (cases oq)
        case None
        then have "mcq_loop env n ss qs used rs' = Some (Inr out)"
          using Cons.prems(1) Some Inr pr by simp
        from Cons.IH [OF this Cons.prems(2,3)] show ?thesis .
      next
        case (Some qw)
        obtain q w where qw: "qw = (q, w)" by (cases qw)
        have b: "mcq_body env s used rs = Some (Inr (Some (q, w), rs'))"
          using \<open>mcq_body env s used rs = Some res\<close> Inr pr Some qw by simp
        from mcq_body_props [OF b] have cw: "correct_word q = w" "lower w \<notin> used" by auto
        have d: "distinct (map (\<lambda>q. lower (correct_word q)) (qs @ [q]))"
          using Cons.prems(2,3) cw by auto
        have u: "(\<lambda>q. lower (correct_word q)) ` set (qs @ [q]) \<subseteq> insert (lower w) used"
          using Cons.prems(3) cw by auto
        show ?thesis
        proof (cases "int (length (qs @ [q])) \<ge> n")
          case True
          then have "out = qs @ [q]" using Cons.prems(1) b by simp
          then show ?thesis using d by simp
        next
          case False
          then have "mcq_loop env n ss (qs @ [q]) (insert (lower w) used) rs' = Some (Inr out)"
            using Cons.prems(1) b by simp
          from Cons.IH [OF this d u] show ?thesis .
        qed
      qed
    qed
  qed
qed










section \<open>The fill-in-blank strategy\<close>

lemma fill_important_words_mem:
  "(w, i) \<in> set (fill_important_words env used tagged) \<Longrightarrow>
   w \<in> fst ` set tagged \<and> lower w \<notin> used \<and> length w > 3"
proof -
  assume "(w, i) \<in> set (fill_important_words env used tagged)"
  then obtain tag where
    e: "(i, (w, tag)) \<in> set (enumerate 0 tagged)" and
    p: "length w > 3" "lower w \<notin> used"
    by (auto simp: fill_important_words_def)
  from e have "i < length tagged" "tagged ! i = (w, tag)"
    by (simp_all add: in_set_enumerate_eq)
  then have "(w, tag) \<in> set tagged" by (metis nth_mem)
  then have "w \<in> fst ` set tagged" by force
  with p show ?thesis by simp
qed

lemma fill_blanks_body_skip:
  "fill_important_words env used (pos_tag env (word_tokenize env s)) = [] \<Longrightarrow>
   fill_blanks_body env s used rs = Some (None, rs)"
  by (simp add: fill_blanks_body_def Let_def)

lemma fill_blanks_body_unfold:
  assumes "fill_important_words env used (pos_tag env (word_tokenize env s)) \<noteq> []"
  shows "fill_blanks_body env s used (r # rs1) =
     Some (Some (\<lparr>q_question =
                    replace_first
                      (fst (choice (fill_important_words env used
                                      (pos_tag env (word_tokenize env s))) r)) blank s,
                  q_options =
                    Some [fst (choice (fill_important_words env used
                                         (pos_tag env (word_tokenize env s))) r)],
                  q_correct = 0, q_type = ''fill_blanks'', q_correct_answer = None\<rparr>,
                 fst (choice (fill_important_words env used
                                (pos_tag env (word_tokenize env s))) r)), rs1)"
proof -
  define important where
    "important = fill_important_words env used (pos_tag env (word_tokenize env s))"
  obtain w i where ch: "choice important r = (w, i)" by (cases "choice important r")
  have "(w, i) \<in> set important"
    using choice_mem [of important r] assms ch by (simp add: important_def)
  from fill_important_words_mem [OF this [unfolded important_def]] have "lower w \<notin> used" by simp
  then show ?thesis using assms ch
    by (simp add: fill_blanks_body_def Let_def important_def [symmetric])
qed

lemma fill_blanks_body_props:
  assumes "fill_blanks_body env s used rs = Some (Some (q, w), rs')"
  shows "q_options q = Some [w] \<and> q_correct q = 0 \<and> q_question q = replace_first w blank s
         \<and> correct_word q = w \<and> lower w \<notin> used
         \<and> w \<in> fst ` set (pos_tag env (word_tokenize env s))"
proof -
  define important where
    "important = fill_important_words env used (pos_tag env (word_tokenize env s))"
  have ne: "important \<noteq> []"
    using assms fill_blanks_body_skip [of env used s rs] unfolding important_def by auto
  have "rs \<noteq> []"
    using assms ne by (auto simp: fill_blanks_body_def Let_def important_def)
  then obtain r rs1 where rs: "rs = r # rs1" by (cases rs) simp_all
  obtain w0 i where ch: "choice important r = (w0, i)" by (cases "choice important r")
  have "(w0, i) \<in> set important" using choice_mem [OF ne, of r] ch by simp
  note mem = fill_important_words_mem [OF this [unfolded important_def]]
  from assms have "q = \<lparr>q_question = replace_first w0 blank s, q_options = Some [w0],
      q_correct = 0, q_type = ''fill_blanks'', q_correct_answer = None\<rparr> \<and> w = w0"
    unfolding rs fill_blanks_body_unfold [OF ne [unfolded important_def]]
      important_def [symmetric] ch by auto
  then show ?thesis using mem by (simp add: correct_word_def)
qed

lemma fill_blanks_loop_distinct:
  "fill_blanks_loop env n ss qs used rs = Some (Inr out) \<Longrightarrow>
   distinct (map (\<lambda>q. lower (correct_word q)) qs) \<Longrightarrow>
   (\<lambda>q. lower (correct_word q)) ` set qs \<subseteq> used \<Longrightarrow>
   distinct (map (\<lambda>q. lower (correct_word q)) out)"
proof (induction ss arbitrary: qs used rs)
  case Nil
  then show ?case by simp
next
  case (Cons s ss)
  show ?case
  proof (cases "int (length qs) \<ge> n")
    case True
    then show ?thesis using Cons.prems by simp
  next
    case False
    show ?thesis
    proof (cases "fill_blanks_body env s used rs")
      case None
      then show ?thesis using Cons.prems(1) False by simp
    next
      case (Some pr)
      obtain oq rs' where pr: "pr = (oq, rs')" by (cases pr)
      show ?thesis
      proof (cases oq)
        case None
        then have "fill_blanks_loop env n ss qs used rs' = Some (Inr out)"
          using Cons.prems(1) Some pr False by simp
        from Cons.IH [OF this Cons.prems(2,3)] show ?thesis .
      next
        case (Some qw)
        obtain q w where qw: "qw = (q, w)" by (cases qw)
        have b: "fill_blanks_body env s used rs = Some (Some (q, w), rs')"
          using \<open>fill_blanks_body env s used rs = Some pr\<close> pr Some qw by simp
        from fill_blanks_body_props [OF b] have cw: "correct_word q = w" "lower w \<notin> used"
          by auto
        have d: "distinct (map (\<lambda>q. lower (correct_word q)) (qs @ [q]))"
          using Cons.prems(2,3) cw by auto
        have u: "(\<lambda>q. lower (correct_word q)) ` set (qs @ [q]) \<subseteq> insert (lower w) used"
          using Cons.prems(3) cw by auto
        have "fill_blanks_loop env n ss (qs @ [q]) (insert (lower w) used) rs' = Some (Inr out)"
          using Cons.prems(1) b False by simp
        from Cons.IH [OF this d u] show ?thesis .
      qed
    qed
  qed
qed

text \<open>
  C8: within one quiz generated by the MCQ branch or by the fill-in-blank strategy, the
  correct answer words of the questions are pairwise different when compared in lower case.
\<close>

theorem generated_answers_distinct:
  "(generate_quiz env path n ''mcq'' rs = Some (Inr qs) \<longrightarrow>
      distinct (map (\<lambda>q. lower (correct_word q)) qs))
   \<and> (generate_quiz env path n ''fill_blanks'' rs = Some (Inr qs) \<longrightarrow>
      distinct (map (\<lambda>q. lower (correct_word q)) qs))
   \<and> (generate_fill_blanks env doc n rs = Some (Inr qs) \<longrightarrow>
      distinct (map (\<lambda>q. lower (correct_word q)) qs))"
proof (intro conjI impI)
  assume g: "generate_quiz env path n ''mcq'' rs = Some (Inr qs)"
  then obtain d where "extract_text env path = Inr d"
    by (cases "extract_text env path") (auto simp: generate_quiz_def)
  with g have "mcq_loop env n (py_take (n * 2) (sent_tokenize env d)) [] {} rs = Some (Inr qs)"
    by (simp add: generate_quiz_def)
  from mcq_loop_distinct [OF this] show "distinct (map (\<lambda>q. lower (correct_word q)) qs)"
    by simp
next
  assume g: "generate_quiz env path n ''fill_blanks'' rs = Some (Inr qs)"
  then obtain d where "extract_text env path = Inr d"
    by (cases "extract_text env path") (auto simp: generate_quiz_def)
  with g have "fill_blanks_loop env n (sent_tokenize env d) [] {} rs = Some (Inr qs)"
    by (simp add: generate_quiz_def generate_fill_blanks_def)
  from fill_blanks_loop_distinct [OF this] show "distinct (map (\<lambda>q. lower (correct_word q)) qs)"
    by simp
next
  assume "generate_fill_blanks env doc n rs = Some (Inr qs)"
  then have "fill_blanks_loop env n (sent_tokenize env doc) [] {} rs = Some (Inr qs)"
    by (simp add: generate_fill_blanks_def)
  from fill_blanks_loop_distinct [OF this] show "distinct (map (\<lambda>q. lower (correct_word q)) qs)"
    by simp
qed

theorem generated_answers_distinct_witness:
  "(\<exists>qs. generate_quiz ex_nlp ''cats.pdf'' 2 ''mcq'' ex_draws = Some (Inr qs)
      \<and> map correct_word qs = [''chase'', ''Dogs'']
      \<and> distinct (map (\<lambda>q. lower (correct_word q)) qs))
   \<and> (\<exists>qs. generate_quiz ex_nlp ''cats.pdf'' 2 ''fill_blanks'' [1, 0] = Some (Inr qs)
      \<and> map correct_word qs = [''chase'', ''Dogs'']
      \<and> distinct (map (\<lambda>q. lower (correct_word q)) qs))
   \<and> (\<exists>qs. generate_fill_blanks ex_nlp ''Cats chase mice. Dogs chase cats.'' 2 [0, 1]
        = Some (Inr qs)
      \<and> map correct_word qs = [''Cats'', ''chase'']
      \<and> distinct (map (\<lambda>q. lower (correct_word q)) qs))"
proof -
  have "(case generate_quiz ex_nlp ''cats.pdf'' 2 ''mcq'' ex_draws of
      Some (Inr qs) \<Rightarrow> map correct_word qs = [''chase'', ''Dogs''] | _ \<Rightarrow> False)"
    by code_simp
  then obtain qs1 where
    r1: "generate_quiz ex_nlp ''cats.pdf'' 2 ''mcq'' ex_draws = Some (Inr qs1)" and
    w1: "map correct_word qs1 = [''chase'', ''Dogs'']"
    by (auto split: option.splits sum.splits)
  have "(case generate_quiz ex_nlp ''cats.pdf'' 2 ''fill_blanks'' [1, 0] of
      Some (Inr qs) \<Rightarrow> map correct_word qs = [''chase'', ''Dogs''] | _ \<Rightarrow> False)"
    by code_simp
  then obtain qs2 where
    r2: "generate_quiz ex_nlp ''cats.pdf'' 2 ''fill_blanks'' [1, 0] = Some (Inr qs2)" and
    w2: "map correct_word qs2 = [''chase'', ''Dogs'']"
    by (auto split: option.splits sum.splits)
  have "(case generate_fill_blanks ex_nlp ''Cats chase mice. Dogs chase cats.'' 2 [0, 1] of
      Some (Inr qs) \<Rightarrow> map correct_word qs = [''Cats'', ''chase''] | _ \<Rightarrow> False)"
    by code_simp
  then obtain qs3 where
    r3: "generate_fill_blanks ex_nlp ''Cats chase mice. Dogs chase cats.'' 2 [0, 1]
           = Some (Inr qs3)" and
    w3: "map correct_word qs3 = [''Cats'', ''chase'']"
    by (auto split: option.splits sum.splits)
  have d1: "distinct (map (\<lambda>q. lower (correct_word q)) qs1)"
    using generated_answers_distinct [of ex_nlp "''cats.pdf''" 2 ex_draws qs1] r1 by blast
  have d2: "distinct (map (\<lambda>q. lower (correct_word q)) qs2)"
    using generated_answers_distinct [of ex_nlp "''cats.pdf''" 2 "[1, 0]" qs2] r2 by blast
  have d3: "distinct (map (\<lambda>q. lower (correct_word q)) qs3)"
    using generated_answers_distinct [of ex_nlp _ 2 "[0, 1]" qs3 "''Cats chase mice. Dogs chase cats.''"] r3 by blast
  show ?thesis
  proof (intro conjI)
    show "\<exists>qs. generate_quiz ex_nlp ''cats.pdf'' 2 ''mcq'' ex_draws = Some (Inr qs)
      \<and> map correct_word qs = [''chase'', ''Dogs'']
      \<and> distinct (map (\<lambda>q. lower (correct_word q)) qs)"
      using r1 w1 d1 by (intro exI [of _ qs1] conjI)
    show "\<exists>qs. generate_quiz ex_nlp ''cats.pdf'' 2 ''fill_blanks'' [1, 0] = Some (Inr qs)
      \<and> map correct_word qs = [''chase'', ''Dogs'']
      \<and> distinct (map (\<lambda>q. lower (correct_word q)) qs)"
      using r2 w2 d2 by (intro exI [of _ qs2] conjI)
    show "\<exists>qs. generate_fill_blanks ex_nlp ''Cats chase mice. Dogs chase cats.'' 2 [0, 1]
        = Some (Inr qs)
      \<and> map correct_word qs = [''Cats'', ''chase'']
      \<and> distinct (map (\<lambda>q. lower (correct_word q)) qs)"
      using r3 w3 d3 by (intro exI [of _ qs3] conjI)
  qed
qed

lemma replace_first_leftmost:
  "word \<noteq> [] \<Longrightarrow> (\<And>a b. pre @ word @ post = a @ word @ b \<Longrightarrow> length pre \<le> length a) \<Longrightarrow>
   replace_first word new (pre @ word @ post) = pre @ new @ post"
proof (induction pre)
  case Nil
  then obtain c cs where w: "word = c # cs" by (cases word) auto
  show ?case by (simp add: w)
next
  case (Cons p pre)
  have no: "take (length word) (p # pre @ word @ post) \<noteq> word"
  proof
    assume "take (length word) (p # pre @ word @ post) = word"
    then have "(p # pre) @ word @ post = [] @ word @ drop (length word) (p # pre @ word @ post)"
      by (metis append_Cons append_Nil append_take_drop_id)
    from Cons.prems(2) [OF this] show False by simp
  qed
  have min: "length pre \<le> length a" if "pre @ word @ post = a @ word @ b" for a b
  proof -
    from that have "(p # pre) @ word @ post = (p # a) @ word @ b" by simp
    from Cons.prems(2) [OF this] show ?thesis by simp
  qed
  have "replace_first word new (pre @ word @ post) = pre @ new @ post"
    using Cons.IH [OF Cons.prems(1)] min by blast
  then show ?case using no by simp
qed

lemma replace_first_absent:
  "(\<And>a b. s \<noteq> a @ word @ b) \<Longrightarrow> replace_first word new s = s"
proof (induction s)
  case Nil
  have "word \<noteq> []" using Nil [of "[]" "[]"] by auto
  then show ?case by simp
next
  case (Cons c s)
  have no: "take (length word) (c # s) \<noteq> word"
  proof
    assume "take (length word) (c # s) = word"
    then have "c # s = [] @ word @ drop (length word) (c # s)"
      by (metis append_Nil append_take_drop_id)
    with Cons.prems show False by blast
  qed
  have "s \<noteq> a @ word @ b" for a b
    using Cons.prems [of "c # a" b] by auto
  from Cons.IH [OF this] no show ?case by simp
qed

section \<open>Distractors for an empty context\<close>

text \<open>
  C6: for every answer, \<open>generate_distractors\<close> on the empty context returns, without raising
  and without a draw, exactly the three fallbacks in their fixed order; for the answer
  \<open>Paris\<close> they are \<open>Not Paris\<close>, \<open>None of the above\<close>, \<open>All of the above\<close>. The
  tokenizer is taken to find no token in the empty string.
\<close>

theorem generate_distractors_empty_context:
  assumes "word_tokenize env '''' = []"
  shows "generate_distractors env answer '''' rs =
           Some ([''Not '' @ answer, ''None of the above'', ''All of the above''], rs)
       \<and> generate_distractors env ''Paris'' '''' rs =
           Some ([''Not Paris'', ''None of the above'', ''All of the above''], rs)"
  using assms by (simp add: generate_distractors_def fallback_distractors_def lower_def)

theorem generate_distractors_empty_context_witness:
  "word_tokenize ex_nlp '''' = []
   \<and> generate_distractors ex_nlp ''Rome'' '''' [4, 2] =
       Some ([''Not Rome'', ''None of the above'', ''All of the above''], [4, 2])
   \<and> generate_distractors ex_nlp ''Paris'' '''' [4, 2] =
       Some ([''Not Paris'', ''None of the above'', ''All of the above''], [4, 2])"
proof -
  have h: "word_tokenize ex_nlp '''' = []"
    by (simp add: ex_nlp_def py_split_def)
  from generate_distractors_empty_context [OF h, of "''Rome''" "[4, 2]"] h
  show ?thesis by simp
qed

section \<open>The token chosen by the fill-in-blank strategy\<close>

text \<open>
  The sentence \<open>Cats chase mice.\<close> has three eligible tokens, \<open>Cats\<close> first. With the draw 1
  the strategy blanks \<open>chase\<close>, not the first eligible token.
\<close>

theorem fill_blanks_not_first_eligible_counterexample:
  "map fst (fill_important_words ex_nlp {} (pos_tag ex_nlp (word_tokenize ex_nlp ''Cats chase mice.'')))
     = [''Cats'', ''chase'', ''mice'']
   \<and> fill_blanks_body ex_nlp ''Cats chase mice.'' {} [1] =
       Some (Some (\<lparr>q_question = ''Cats _____ mice.'', q_options = Some [''chase''],
                    q_correct = 0, q_type = ''fill_blanks'', q_correct_answer = None\<rparr>,
                   ''chase''), [])
   \<and> generate_fill_blanks ex_nlp ''Cats chase mice.'' 1 [1] =
       Some (Inr [\<lparr>q_question = ''Cats _____ mice.'', q_options = Some [''chase''],
                    q_correct = 0, q_type = ''fill_blanks'', q_correct_answer = None\<rparr>])"
  by code_simp

text \<open>
  C9 (as the code has it): for a sentence with at least one eligible token, the strategy
  selects one of the eligible tokens by \<open>random.choice\<close>, any of them according to the draw;
  the question is the sentence with the leftmost occurrence of that word replaced by the
  blank marker, the word is the only option and the correct index is 0.
\<close>

theorem fill_blanks_body_selects:
  assumes "important = fill_important_words env used (pos_tag env (word_tokenize env sentence))"
      and "important \<noteq> []"
      and "word = fst (important ! (r mod length important))"
  shows "word \<in> fst ` set important
       \<and> fill_blanks_body env sentence used (r # rs) =
           Some (Some (\<lparr>q_question = replace_first word blank sentence,
                        q_options = Some [word], q_correct = 0,
                        q_type = ''fill_blanks'', q_correct_answer = None\<rparr>, word), rs)
       \<and> (\<forall>pre post. sentence = pre @ word @ post
             \<and> (\<forall>a b. sentence = a @ word @ b \<longrightarrow> length pre \<le> length a)
             \<longrightarrow> replace_first word blank sentence = pre @ blank @ post)"
proof (intro conjI allI impI)
  have "important ! (r mod length important) \<in> set important"
    using assms(2) by simp
  then show "word \<in> fst ` set important" using assms(3) by simp
next
  show "fill_blanks_body env sentence used (r # rs) =
           Some (Some (\<lparr>q_question = replace_first word blank sentence,
                        q_options = Some [word], q_correct = 0,
                        q_type = ''fill_blanks'', q_correct_answer = None\<rparr>, word), rs)"
    using fill_blanks_body_unfold [OF assms(2) [unfolded assms(1)], of r rs] assms(1,3)
    by (simp add: choice_def)
next
  fix pre post
  assume a: "sentence = pre @ word @ post
             \<and> (\<forall>a b. sentence = a @ word @ b \<longrightarrow> length pre \<le> length a)"
  have "important ! (r mod length important) \<in> set important"
    using assms(2) by simp
  then have "(word, snd (important ! (r mod length important))) \<in> set important"
    using assms(3) by simp
  from fill_important_words_mem [OF this [unfolded assms(1)]] have ne: "word \<noteq> []" by auto
  have "replace_first word blank (pre @ word @ post) = pre @ blank @ post"
    using a by (intro replace_first_leftmost [OF ne]) auto
  then show "replace_first word blank sentence = pre @ blank @ post" using a by simp
qed

theorem fill_blanks_body_selects_witness:
  "fill_important_words ex_nlp {} (pos_tag ex_nlp (word_tokenize ex_nlp ''Cats chase mice.''))
     = [(''Cats'', 0), (''chase'', 1), (''mice'', 2)]
   \<and> ''chase'' = fst ([(''Cats'', 0 :: nat), (''chase'', 1), (''mice'', 2)]
                        ! (4 mod length [(''Cats'', 0 :: nat), (''chase'', 1), (''mice'', 2)]))
   \<and> fill_blanks_body ex_nlp ''Cats chase mice.'' {} [4, 7] =
           Some (Some (\<lparr>q_question = replace_first ''chase'' blank ''Cats chase mice.'',
                        q_options = Some [''chase''], q_correct = 0,
                        q_type = ''fill_blanks'', q_correct_answer = None\<rparr>, ''chase''), [7])
   \<and> replace_first ''chase'' blank ''Cats chase mice.'' = ''Cats '' @ blank @ '' mice.''"
proof -
  have i: "[(''Cats'', 0), (''chase'', 1), (''mice'', 2)] =
      fill_important_words ex_nlp {} (pos_tag ex_nlp (word_tokenize ex_nlp ''Cats chase mice.''))"
    by code_simp
  have n: "[(''Cats'', 0 :: nat), (''chase'', 1), (''mice'', 2)] \<noteq> []" by simp
  have w: "''chase'' = fst ([(''Cats'', 0 :: nat), (''chase'', 1), (''mice'', 2)]
                               ! (4 mod length [(''Cats'', 0 :: nat), (''chase'', 1), (''mice'', 2)]))"
    by simp
  note t = fill_blanks_body_selects [OF i n, of "''chase''" 4 "[7]"]
  have s: "''Cats chase mice.'' = ''Cats '' @ ''chase'' @ '' mice.''" by simp
  have m: "\<forall>a b. ''Cats chase mice.'' = a @ ''chase'' @ b \<longrightarrow> length ''Cats '' \<le> length a"
  proof (intro allI impI)
    fix a b :: string
    assume e: "''Cats chase mice.'' = a @ ''chase'' @ b"
    show "length ''Cats '' \<le> length a"
    proof (rule ccontr)
      assume "\<not> length ''Cats '' \<le> length a"
      then have "length a < 5" by simp
      then consider "length a = 0" | "length a = 1" | "length a = 2" | "length a = 3"
        | "length a = 4" by linarith
      then show False
      proof cases
        case 1 then show ?thesis using e by simp
      next
        case 2 then show ?thesis using e by (cases a) (auto simp: Cons_eq_append_conv)
      next
        case 3 then show ?thesis using e
          by (cases a; cases "tl a") auto
      next
        case 4 then show ?thesis using e
          by (cases a; cases "tl a"; cases "tl (tl a)") auto
      next
        case 5 then show ?thesis using e
          by (cases a; cases "tl a"; cases "tl (tl a)"; cases "tl (tl (tl a))") auto
      qed
    qed
  qed
  from t [OF w] s m have
    b: "fill_blanks_body ex_nlp ''Cats chase mice.'' {} [4, 7] =
           Some (Some (\<lparr>q_question = replace_first ''chase'' blank ''Cats chase mice.'',
                        q_options = Some [''chase''], q_correct = 0,
                        q_type = ''fill_blanks'', q_correct_answer = None\<rparr>, ''chase''), [7])"
    and r: "replace_first ''chase'' blank ''Cats chase mice.'' = ''Cats '' @ blank @ '' mice.''"
    by blast+
  show ?thesis using i [symmetric] w b r by (intro conjI)
qed

section \<open>Too little content\<close>

lemma py_take_length: "0 \<le> k \<Longrightarrow> int (length (py_take k xs)) \<le> k"
  by (simp add: py_take_def)

lemma mcq_loop_result:
  "mcq_loop env n ss qs used rs = Some res \<Longrightarrow>
   \<exists>out. res = Inr out \<and> (int (length qs) < n \<or> ss = [] \<and> int (length qs) \<le> n
                             \<longrightarrow> int (length out) \<le> n)"
proof (induction ss arbitrary: qs used rs)
  case Nil
  then show ?case by auto
next
  case (Cons s ss)
  show ?case
  proof (cases "mcq_body env s used rs")
    case None
    then show ?thesis using Cons.prems by simp
  next
    case (Some r)
    show ?thesis
    proof (cases r)
      case (Inl e)
      then show ?thesis using Some mcq_body_no_error [of env s used rs e] by simp
    next
      case (Inr pr)
      obtain oq rs' where pr: "pr = (oq, rs')" by (cases pr)
      show ?thesis
      proof (cases oq)
        case None
        then have "mcq_loop env n ss qs used rs' = Some res"
          using Cons.prems Some Inr pr by simp
        from Cons.IH [OF this] show ?thesis by auto
      next
        case (Some qw)
        obtain q w where qw: "qw = (q, w)" by (cases qw)
        have b: "mcq_body env s used rs = Some (Inr (Some (q, w), rs'))"
          using \<open>mcq_body env s used rs = Some r\<close> Inr pr Some qw by simp
        show ?thesis
        proof (cases "int (length (qs @ [q])) \<ge> n")
          case True
          then have "res = Inr (qs @ [q])" using Cons.prems b by simp
          then show ?thesis by auto
        next
          case False
          then have "mcq_loop env n ss (qs @ [q]) (insert (lower w) used) rs' = Some res"
            using Cons.prems b by simp
          from Cons.IH [OF this] False show ?thesis by auto
        qed
      qed
    qed
  qed
qed

lemma true_false_loop_result:
  "true_false_loop ss qs rs = Some res \<Longrightarrow>
   \<exists>out. res = Inr out \<and> length out = length qs + length ss"
proof (induction ss arbitrary: qs rs)
  case Nil
  then show ?case by auto
next
  case (Cons s ss)
  from Cons.prems obtain q rs' where
    "true_false_body s rs = Some (q, rs')" "true_false_loop ss (qs @ [q]) rs' = Some res"
    by (auto split: option.splits)
  from Cons.IH [OF this(2)] show ?case by auto
qed

lemma fill_blanks_loop_result:
  "fill_blanks_loop env n ss qs used rs = Some res \<Longrightarrow>
   \<exists>out. res = Inr out \<and> (int (length qs) \<le> n \<longrightarrow> int (length out) \<le> n)"
proof (induction ss arbitrary: qs used rs)
  case Nil
  then show ?case by auto
next
  case (Cons s ss)
  show ?case
  proof (cases "int (length qs) \<ge> n")
    case True
    then show ?thesis using Cons.prems by auto
  next
    case False
    show ?thesis
    proof (cases "fill_blanks_body env s used rs")
      case None
      then show ?thesis using Cons.prems False by simp
    next
      case (Some pr)
      obtain oq rs' where pr: "pr = (oq, rs')" by (cases pr)
      show ?thesis
      proof (cases oq)
        case None
        then have "fill_blanks_loop env n ss qs used rs' = Some res"
          using Cons.prems Some pr False by simp
        from Cons.IH [OF this] show ?thesis by auto
      next
        case (Some qw)
        obtain q w where qw: "qw = (q, w)" by (cases qw)
        have "fill_blanks_loop env n ss (qs @ [q]) (insert (lower w) used) rs' = Some res"
          using Cons.prems \<open>fill_blanks_body env s used rs = Some pr\<close> pr Some qw False by simp
        from Cons.IH [OF this] False show ?thesis by auto
      qed
    qed
  qed
qed

lemma generate_quiz_result:
  assumes "extract_text env path = Inr doc"
      and "qtype = ''mcq'' \<or> qtype = ''true_false'' \<or> qtype = ''fill_blanks''"
      and "generate_quiz env path n qtype rs = Some res"
  shows "\<exists>qs. res = Inr qs \<and> (0 \<le> n \<longrightarrow> int (length qs) \<le> n)"
proof -
  consider "qtype = ''mcq''" | "qtype = ''true_false''" | "qtype = ''fill_blanks''"
    using assms(2) by blast
  then show ?thesis
  proof cases
    case 1
    with assms have "mcq_loop env n (py_take (n * 2) (sent_tokenize env doc)) [] {} rs = Some res"
      by (simp add: generate_quiz_def)
    from mcq_loop_result [OF this] obtain out where
      o: "res = Inr out"
         "int (length ([] :: question list)) < n
            \<or> py_take (n * 2) (sent_tokenize env doc) = [] \<and> int (length ([] :: question list)) \<le> n
          \<longrightarrow> int (length out) \<le> n"
      by blast
    have "py_take (n * 2) (sent_tokenize env doc) = []" if "n = 0"
      using that by (simp add: py_take_def)
    then have "0 \<le> n \<longrightarrow> int (length out) \<le> n" using o(2) by (cases "n = 0") auto
    with o(1) show ?thesis by simp
  next
    case 2
    with assms have "true_false_loop (py_take n (sent_tokenize env doc)) [] rs = Some res"
      by (simp add: generate_quiz_def)
    from true_false_loop_result [OF this] py_take_length [of n "sent_tokenize env doc"]
    show ?thesis by auto
  next
    case 3
    with assms have "fill_blanks_loop env n (sent_tokenize env doc) [] {} rs = Some res"
      by (simp add: generate_quiz_def generate_fill_blanks_def)
    from fill_blanks_loop_result [OF this] show ?thesis by auto
  qed
qed

lemma objective_loop_length:
  "objective_loop env m cs qtexts keys rs = Some (Inr (qtexts', keys')) \<Longrightarrow>
   length qtexts' = length qtexts + length cs"
proof (induction cs arbitrary: qtexts keys rs)
  case Nil
  then show ?case by simp
next
  case (Cons c cs)
  from Cons.prems obtain q k rs' where
    "objective_loop env m cs (qtexts @ [q]) (keys @ [k]) rs' = Some (Inr (qtexts', keys'))"
    by (auto simp: Let_def split: option.splits prod.splits)
  from Cons.IH [OF this] show ?case by simp
qed

lemma subjective_loop_length:
  "subjective_loop m n cs qtexts samples rs = Some (qtexts', samples') \<Longrightarrow>
   int (length qtexts + length cs) = n \<Longrightarrow>
   length qtexts' = length qtexts + length cs"
proof (induction cs arbitrary: qtexts samples rs)
  case Nil
  then show ?case by simp
next
  case (Cons c cs)
  from Cons.prems(1) obtain r rs' where rs: "rs = r # rs'" by (cases rs) auto
  define t where "t = choice generate_question_types r @ '' '' @
    lower (text2text m (''Generate a thought-provoking question about this text: '' @ c))"
  show ?case
  proof (cases "int (length (qtexts @ [t])) \<ge> n")
    case True
    then have "qtexts' = qtexts @ [t]" using Cons.prems(1) rs by (simp add: Let_def t_def)
    moreover have "cs = []"
    proof -
      show ?thesis using True Cons.prems(2) by (cases cs) auto
    qed
    ultimately show ?thesis by simp
  next
    case False
    then have "subjective_loop m n cs (qtexts @ [t])
        (samples @ [''Sample Answer: '' @ c]) rs' = Some (qtexts', samples')"
      using Cons.prems(1) rs by (simp add: Let_def t_def)
    from Cons.IH [OF this] Cons.prems(2) show ?thesis by simp
  qed
qed

lemma objective_generate_test_length:
  assumes "objective_generate_test env m doc n rs = Some (Inr (qtexts, keys))"
  shows "int (length qtexts) = n"
proof -
  define ms where "ms = objective_preprocess_text env doc"
  from assms have n: "\<not> int (length ms) < n" "\<not> n < 0"
    by (auto simp: objective_generate_test_def Let_def ms_def split: if_splits)
  with assms obtain selected rs1 where
    s: "sample ms (nat n) rs = Some (selected, rs1)" and
    l: "objective_loop env m selected [] [] rs1 = Some (Inr (qtexts, keys))"
    by (auto simp: objective_generate_test_def Let_def ms_def
             split: option.splits sum.splits)
  from sample_props [OF s] n have "length selected = nat n" by simp
  with objective_loop_length [OF l] n show ?thesis by simp
qed

lemma subjective_generate_test_length:
  assumes "subjective_generate_test env m doc n rs = Some (Inr (qtexts, samples))"
  shows "int (length qtexts) = n"
proof -
  define ps where "ps = subjective_preprocess_text env doc"
  from assms have n: "\<not> int (length ps) < n" "\<not> n < 0"
    by (auto simp: subjective_generate_test_def Let_def ps_def split: if_splits)
  with assms obtain selected rs1 where
    s: "sample ps (nat n) rs = Some (selected, rs1)" and
    l: "subjective_loop m n selected [] [] rs1 = Some (qtexts, samples)"
    by (auto simp: subjective_generate_test_def Let_def ps_def
             split: option.splits sum.splits)
  from sample_props [OF s] n have len: "length selected = nat n" by simp
  then have "int (length ([] :: string list) + length selected) = n" using n by simp
  from subjective_loop_length [OF l this] len n show ?thesis by simp
qed

text \<open>
  Every branch of \<open>generate_quiz\<close> produces a result. The true/false branch draws at most
  three times per sentence and the fill-in-blank branch at most once, so a random source
  that long is enough. The loop that fills the MCQ options draws until it meets a generic
  word not yet among the options; some finite sequence of draws ends it, and then the rest
  of the source does not matter.
\<close>

lemma py_take_length_le: "length (py_take k xs) \<le> length xs"
  by (auto simp: py_take_def)

lemma py_take_length_min: "0 \<le> k \<Longrightarrow> length (py_take k xs) = min (nat k) (length xs)"
  by (simp add: py_take_def min_def)

lemma sample_total:
  "length ds = k \<Longrightarrow> \<exists>ys. \<forall>rest. sample xs k (ds @ rest) = Some (ys, rest)"
proof (induction k arbitrary: xs ds)
  case 0
  then show ?case by simp
next
  case (Suc k)
  then obtain d ds' where ds: "ds = d # ds'" "length ds' = k" by (cases ds) auto
  define i where "i = d mod length xs"
  from Suc.IH [OF ds(2), of "take i xs @ drop (Suc i) xs"] obtain ys where
    ys: "\<forall>rest. sample (take i xs @ drop (Suc i) xs) k (ds' @ rest) = Some (ys, rest)" by blast
  have "\<forall>rest. sample xs (Suc k) (ds @ rest) = Some (xs ! i # ys, rest)"
    using ys by (simp add: ds(1) Let_def i_def)
  then show ?case by blast
qed

lemma shuffle_total:
  "length ds = length xs \<Longrightarrow> \<exists>ys. \<forall>rest. shuffle xs (ds @ rest) = Some (ys, rest)"
  unfolding shuffle_def by (rule sample_total)

lemma fill_generic_done:
  "4 \<le> length opts \<Longrightarrow> fill_generic gen opts rs = Some (opts, rs)"
  by (cases rs) simp_all

lemma fill_generic_total:
  assumes "distinct gen" and "4 \<le> length gen"
  shows "\<exists>ds opts'. \<forall>rest. fill_generic gen opts (ds @ rest) = Some (opts', rest)"
proof (induction "4 - length opts" arbitrary: opts)
  case 0
  then have "\<forall>rest. fill_generic gen opts ([] @ rest) = Some (opts, rest)"
    by (simp add: fill_generic_done)
  then show ?case by blast
next
  case (Suc k)
  then have lt: "length opts < 4" by simp
  have "\<not> set gen \<subseteq> set opts"
  proof
    assume "set gen \<subseteq> set opts"
    then have "card (set gen) \<le> card (set opts)" by (simp add: card_mono)
    moreover have "card (set gen) = length gen" using assms(1) by (simp add: distinct_card)
    moreover have "card (set opts) \<le> length opts" by (rule card_length)
    ultimately show False using lt assms(2) by simp
  qed
  then obtain x where x: "x \<in> set gen" "x \<notin> set opts" by blast
  then obtain i where i: "i < length gen" "gen ! i = x" by (auto simp: in_set_conv_nth)
  have c: "choice gen i = x" using i by (simp add: choice_def)
  have "k = 4 - length (opts @ [x])" using Suc(2) by simp
  from Suc(1) [OF this] obtain ds opts' where
    r: "\<forall>rest. fill_generic gen (opts @ [x]) (ds @ rest) = Some (opts', rest)" by blast
  have "\<forall>rest. fill_generic gen opts ((i # ds) @ rest) = Some (opts', rest)"
    using r lt c x(2) by (simp add: Let_def)
  then show ?case by blast
qed

lemma generic_options_distinct:
  "distinct (generic_options p) \<and> 4 \<le> length (generic_options p)"
  by (simp add: generic_options_def)

lemma mcq_options_total:
  "\<exists>ds opts. \<forall>rest. mcq_options tagged w tag (ds @ rest) = Some (opts, rest)"
proof -
  define similar where "similar = similar_words tagged w tag"
  define gen where "gen = generic_options (take 2 tag)"
  have g: "distinct gen" "4 \<le> length gen"
    using generic_options_distinct [of "take 2 tag"] by (simp_all add: gen_def)
  have "\<exists>d1 picked. \<forall>rest.
      (if similar \<noteq> [] then sample similar (min 2 (length similar)) (d1 @ rest)
       else Some ([], d1 @ rest)) = Some (picked, rest)"
  proof (cases "similar = []")
    case True
    then have "\<forall>rest. (if similar \<noteq> [] then sample similar (min 2 (length similar)) ([] @ rest)
       else Some ([], [] @ rest)) = Some ([], rest)" by simp
    then show ?thesis by blast
  next
    case False
    from sample_total [of "replicate (min 2 (length similar)) 0" "min 2 (length similar)" similar]
    obtain ys where "\<forall>rest. sample similar (min 2 (length similar))
        (replicate (min 2 (length similar)) 0 @ rest) = Some (ys, rest)" by auto
    then have "\<forall>rest. (if similar \<noteq> [] then sample similar (min 2 (length similar))
        (replicate (min 2 (length similar)) 0 @ rest)
       else Some ([], replicate (min 2 (length similar)) 0 @ rest)) = Some (ys, rest)"
      using False by simp
    then show ?thesis by blast
  qed
  then obtain d1 picked where d1: "\<And>rest.
      (if similar \<noteq> [] then sample similar (min 2 (length similar)) (d1 @ rest)
       else Some ([], d1 @ rest)) = Some (picked, rest)" by blast
  from fill_generic_total [OF g, of "[w] @ picked"] obtain d2 o1 where
    d2: "\<And>rest. fill_generic gen ([w] @ picked) (d2 @ rest) = Some (o1, rest)" by blast
  from fill_generic_total [OF g, of "take 4 (dict_fromkeys o1)"] obtain d3 o2 where
    d3: "\<And>rest. fill_generic gen (take 4 (dict_fromkeys o1)) (d3 @ rest) = Some (o2, rest)"
    by blast
  from shuffle_total [of "replicate (length o2) 0" o2] obtain opts where
    d4: "\<And>rest. shuffle o2 (replicate (length o2) 0 @ rest) = Some (opts, rest)" by auto
  have "\<forall>rest. mcq_options tagged w tag
      ((d1 @ d2 @ d3 @ replicate (length o2) 0) @ rest) = Some (opts, rest)"
  proof
    fix rest
    show "mcq_options tagged w tag
      ((d1 @ d2 @ d3 @ replicate (length o2) 0) @ rest) = Some (opts, rest)"
      using d1 [of "d2 @ d3 @ replicate (length o2) 0 @ rest"]
        d2 [of "d3 @ replicate (length o2) 0 @ rest"]
        d3 [of "replicate (length o2) 0 @ rest"] d4 [of rest]
      by (simp add: mcq_options_def Let_def similar_def [symmetric] gen_def [symmetric])
  qed
  then show ?thesis by blast
qed

lemma mcq_body_total:
  "\<exists>ds x. \<forall>rest. mcq_body env s used (ds @ rest) = Some (Inr (x, rest))"
proof (cases "important_words env used (pos_tag env (word_tokenize env s)) = []")
  case True
  then have "\<forall>rest. mcq_body env s used ([] @ rest) = Some (Inr (None, rest))"
    by (simp add: mcq_body_skip)
  then show ?thesis by blast
next
  case False
  define tagged where "tagged = pos_tag env (word_tokenize env s)"
  obtain w0 tag where ch: "choice (important_words env used (pos_tag env (word_tokenize env s))) 0
      = (w0, tag)"
    by (cases "choice (important_words env used (pos_tag env (word_tokenize env s))) 0")
  from mcq_options_total [of tagged w0 tag] obtain ds opts where
    mo: "\<And>rest. mcq_options tagged w0 tag (ds @ rest) = Some (opts, rest)" by blast
  from mcq_options_props [OF mo [of "[]"]] have "w0 \<in> set opts" by simp
  from index_of_mem [OF this] obtain i where ix: "index_of opts w0 = Some i" by blast
  have "\<forall>rest. mcq_body env s used ((0 # ds) @ rest) =
      Some (Inr (Some (\<lparr>q_question = question_text s w0, q_options = Some opts,
                         q_correct = i, q_type = ''mcq'', q_correct_answer = None\<rparr>, w0), rest))"
    using mcq_body_unfold [OF False ch] mo ix by (simp add: tagged_def)
  then show ?thesis by blast
qed

lemma mcq_loop_total:
  "\<exists>ds out. \<forall>rest. mcq_loop env n ss qs used (ds @ rest) = Some (Inr out)"
proof (induction ss arbitrary: qs used)
  case Nil
  have "\<forall>rest. mcq_loop env n [] qs used ([] @ rest) = Some (Inr qs)" by simp
  then show ?case by blast
next
  case (Cons s ss)
  from mcq_body_total [of env s used] obtain d1 x where
    b: "\<And>rest. mcq_body env s used (d1 @ rest) = Some (Inr (x, rest))" by blast
  show ?case
  proof (cases x)
    case None
    from Cons.IH [of qs used] obtain d2 out where
      r: "\<And>rest. mcq_loop env n ss qs used (d2 @ rest) = Some (Inr out)" by blast
    have "\<forall>rest. mcq_loop env n (s # ss) qs used ((d1 @ d2) @ rest) = Some (Inr out)"
      using b [of "d2 @ _"] r None by simp
    then show ?thesis by blast
  next
    case (Some qw)
    obtain q w where qw: "qw = (q, w)" by (cases qw)
    show ?thesis
    proof (cases "int (length (qs @ [q])) \<ge> n")
      case True
      have "\<forall>rest. mcq_loop env n (s # ss) qs used (d1 @ rest) = Some (Inr (qs @ [q]))"
        using b Some qw True by simp
      then show ?thesis by blast
    next
      case False
      from Cons.IH [of "qs @ [q]" "insert (lower w) used"] obtain d2 out where
        r: "\<And>rest. mcq_loop env n ss (qs @ [q]) (insert (lower w) used) (d2 @ rest)
              = Some (Inr out)" by blast
      have "\<forall>rest. mcq_loop env n (s # ss) qs used ((d1 @ d2) @ rest) = Some (Inr out)"
        using b [of "d2 @ _"] r Some qw False by simp
      then show ?thesis by blast
    qed
  qed
qed

lemma true_false_body_total:
  assumes "3 \<le> length rs"
  shows "\<exists>q rs'. true_false_body s rs = Some (q, rs') \<and> length rs \<le> length rs' + 3"
proof -
  from assms obtain r1 r2 r3 rest where rs: "rs = r1 # r2 # r3 # rest"
    by (cases rs; cases "tl rs"; cases "tl (tl rs)") auto
  show ?thesis by (auto simp: rs true_false_body_def Let_def)
qed

lemma true_false_loop_total:
  "3 * length ss \<le> length rs \<Longrightarrow> \<exists>out. true_false_loop ss qs rs = Some (Inr out)"
proof (induction ss arbitrary: qs rs)
  case Nil
  then show ?case by simp
next
  case (Cons s ss)
  then have "3 \<le> length rs" by simp
  from true_false_body_total [OF this, of s] obtain q rs' where
    b: "true_false_body s rs = Some (q, rs')" "length rs \<le> length rs' + 3" by blast
  have "3 * length ss \<le> length rs'" using Cons.prems b(2) by simp
  from Cons.IH [OF this, of "qs @ [q]"] b(1) show ?case by simp
qed

lemma fill_blanks_body_total:
  assumes "rs \<noteq> []"
  shows "\<exists>x rs'. fill_blanks_body env s used rs = Some (x, rs') \<and> length rs \<le> length rs' + 1"
proof -
  from assms obtain r rs1 where rs: "rs = r # rs1" by (cases rs) auto
  show ?thesis
  proof (cases "fill_important_words env used (pos_tag env (word_tokenize env s)) = []")
    case True
    then show ?thesis by (simp add: fill_blanks_body_skip)
  next
    case False
    from fill_blanks_body_unfold [OF this, of r rs1] show ?thesis by (simp add: rs)
  qed
qed

lemma fill_blanks_loop_total:
  "length ss \<le> length rs \<Longrightarrow> \<exists>out. fill_blanks_loop env n ss qs used rs = Some (Inr out)"
proof (induction ss arbitrary: qs used rs)
  case Nil
  then show ?case by simp
next
  case (Cons s ss)
  show ?case
  proof (cases "int (length qs) \<ge> n")
    case True
    then show ?thesis by simp
  next
    case False
    have "rs \<noteq> []" using Cons.prems by auto
    from fill_blanks_body_total [OF this, of env s used] obtain x rs' where
      b: "fill_blanks_body env s used rs = Some (x, rs')" "length rs \<le> length rs' + 1" by blast
    have l: "length ss \<le> length rs'" using Cons.prems b(2) by simp
    show ?thesis
    proof (cases x)
      case None
      from Cons.IH [OF l, of qs used] b(1) None False show ?thesis by simp
    next
      case (Some qw)
      obtain q w where "qw = (q, w)" by (cases qw)
      with Cons.IH [OF l, of "qs @ [q]" "insert (lower w) used"] b(1) Some False
      show ?thesis by simp
    qed
  qed
qed

lemma mcq_body_None:
  assumes "mcq_body env s used rs = Some (Inr (None, rs'))"
  shows "important_words env used (pos_tag env (word_tokenize env s)) = []"
proof (rule ccontr)
  assume ne: "important_words env used (pos_tag env (word_tokenize env s)) \<noteq> []"
  have "rs \<noteq> []" using assms ne by (auto simp: mcq_body_def Let_def)
  then obtain r rs1 where rs: "rs = r # rs1" by (cases rs) simp_all
  obtain w0 tag where
    ch: "choice (important_words env used (pos_tag env (word_tokenize env s))) r = (w0, tag)"
    by (cases "choice (important_words env used (pos_tag env (word_tokenize env s))) r")
  from assms show False
    unfolding rs mcq_body_unfold [OF ne ch]
    by (auto split: option.splits prod.splits)
qed

lemma fill_blanks_body_None:
  assumes "fill_blanks_body env s used rs = Some (None, rs')"
  shows "fill_important_words env used (pos_tag env (word_tokenize env s)) = []"
proof (rule ccontr)
  assume ne: "fill_important_words env used (pos_tag env (word_tokenize env s)) \<noteq> []"
  have "rs \<noteq> []" using assms ne by (auto simp: fill_blanks_body_def Let_def)
  then obtain r rs1 where rs: "rs = r # rs1" by (cases rs) simp_all
  from assms show False unfolding rs fill_blanks_body_unfold [OF ne] by simp
qed

lemma mcq_loop_bound:
  "mcq_loop env n ss qs used rs = Some (Inr out) \<Longrightarrow>
   length qs \<le> length out \<and> length out \<le> length qs + length ss"
proof (induction ss arbitrary: qs used rs)
  case Nil
  then show ?case by simp
next
  case (Cons s ss)
  show ?case
  proof (cases "mcq_body env s used rs")
    case None
    then show ?thesis using Cons.prems by simp
  next
    case (Some r)
    show ?thesis
    proof (cases r)
      case (Inl e)
      then show ?thesis using Some Cons.prems by simp
    next
      case (Inr pr)
      obtain oq rs' where pr: "pr = (oq, rs')" by (cases pr)
      show ?thesis
      proof (cases oq)
        case None
        then have "mcq_loop env n ss qs used rs' = Some (Inr out)"
          using Cons.prems Some Inr pr by simp
        from Cons.IH [OF this] show ?thesis by simp
      next
        case (Some qw)
        obtain q w where qw: "qw = (q, w)" by (cases qw)
        have b: "mcq_body env s used rs = Some (Inr (Some (q, w), rs'))"
          using \<open>mcq_body env s used rs = Some r\<close> Inr pr Some qw by simp
        show ?thesis
        proof (cases "int (length (qs @ [q])) \<ge> n")
          case True
          then have "out = qs @ [q]" using Cons.prems b by simp
          then show ?thesis by simp
        next
          case False
          then have "mcq_loop env n ss (qs @ [q]) (insert (lower w) used) rs' = Some (Inr out)"
            using Cons.prems b by simp
          from Cons.IH [OF this] show ?thesis by simp
        qed
      qed
    qed
  qed
qed

lemma fill_blanks_loop_bound:
  "fill_blanks_loop env n ss qs used rs = Some (Inr out) \<Longrightarrow>
   length qs \<le> length out \<and> length out \<le> length qs + length ss"
proof (induction ss arbitrary: qs used rs)
  case Nil
  then show ?case by simp
next
  case (Cons s ss)
  show ?case
  proof (cases "int (length qs) \<ge> n")
    case True
    then show ?thesis using Cons.prems by simp
  next
    case False
    show ?thesis
    proof (cases "fill_blanks_body env s used rs")
      case None
      then show ?thesis using Cons.prems False by simp
    next
      case (Some pr)
      obtain oq rs' where pr: "pr = (oq, rs')" by (cases pr)
      show ?thesis
      proof (cases oq)
        case None
        then have "fill_blanks_loop env n ss qs used rs' = Some (Inr out)"
          using Cons.prems Some pr False by simp
        from Cons.IH [OF this] show ?thesis by simp
      next
        case (Some qw)
        obtain q w where qw: "qw = (q, w)" by (cases qw)
        have "fill_blanks_loop env n ss (qs @ [q]) (insert (lower w) used) rs' = Some (Inr out)"
          using Cons.prems \<open>fill_blanks_body env s used rs = Some pr\<close> pr Some qw False by simp
        from Cons.IH [OF this] show ?thesis by simp
      qed
    qed
  qed
qed

lemma mcq_loop_emits:
  "mcq_loop env n ss [] {} rs = Some (Inr out) \<Longrightarrow>
   \<exists>s\<in>set ss. important_words env {} (pos_tag env (word_tokenize env s)) \<noteq> [] \<Longrightarrow>
   out \<noteq> []"
proof (induction ss arbitrary: rs)
  case Nil
  then show ?case by simp
next
  case (Cons s ss)
  show ?case
  proof (cases "mcq_body env s {} rs")
    case None
    then show ?thesis using Cons.prems by simp
  next
    case (Some r)
    show ?thesis
    proof (cases r)
      case (Inl e)
      then show ?thesis using Some Cons.prems by simp
    next
      case (Inr pr)
      obtain oq rs' where pr: "pr = (oq, rs')" by (cases pr)
      show ?thesis
      proof (cases oq)
        case None
        then have b: "mcq_body env s {} rs = Some (Inr (None, rs'))"
          using Some Inr pr by simp
        from mcq_body_None [OF this] Cons.prems(2) have
          ex: "\<exists>s\<in>set ss. important_words env {} (pos_tag env (word_tokenize env s)) \<noteq> []"
          by auto
        have "mcq_loop env n ss [] {} rs' = Some (Inr out)" using Cons.prems(1) b by simp
        from Cons.IH [OF this ex] show ?thesis .
      next
        case (Some qw)
        obtain q w where qw: "qw = (q, w)" by (cases qw)
        have b: "mcq_body env s {} rs = Some (Inr (Some (q, w), rs'))"
          using \<open>mcq_body env s {} rs = Some r\<close> Inr pr Some qw by simp
        show ?thesis
        proof (cases "int (length ([] @ [q])) \<ge> n")
          case True
          then have "out = [q]" using Cons.prems(1) b by simp
          then show ?thesis by simp
        next
          case False
          then have "mcq_loop env n ss ([] @ [q]) (insert (lower w) {}) rs' = Some (Inr out)"
            using Cons.prems(1) b by simp
          from mcq_loop_bound [OF this] show ?thesis by auto
        qed
      qed
    qed
  qed
qed

lemma fill_blanks_loop_emits:
  "fill_blanks_loop env n ss [] {} rs = Some (Inr out) \<Longrightarrow> 1 \<le> n \<Longrightarrow>
   \<exists>s\<in>set ss. fill_important_words env {} (pos_tag env (word_tokenize env s)) \<noteq> [] \<Longrightarrow>
   out \<noteq> []"
proof (induction ss arbitrary: rs)
  case Nil
  then show ?case by simp
next
  case (Cons s ss)
  have n: "\<not> int (length ([] :: question list)) \<ge> n" using Cons.prems(2) by simp
  show ?case
  proof (cases "fill_blanks_body env s {} rs")
    case None
    then show ?thesis using Cons.prems(1) n by simp
  next
    case (Some pr)
    obtain oq rs' where pr: "pr = (oq, rs')" by (cases pr)
    show ?thesis
    proof (cases oq)
      case None
      then have b: "fill_blanks_body env s {} rs = Some (None, rs')" using Some pr by simp
      from fill_blanks_body_None [OF this] Cons.prems(3) have
        ex: "\<exists>s\<in>set ss. fill_important_words env {} (pos_tag env (word_tokenize env s)) \<noteq> []"
        by auto
      have "fill_blanks_loop env n ss [] {} rs' = Some (Inr out)"
        using Cons.prems(1) b n by simp
      from Cons.IH [OF this Cons.prems(2) ex] show ?thesis .
    next
      case (Some qw)
      obtain q w where qw: "qw = (q, w)" by (cases qw)
      have "fill_blanks_loop env n ss ([] @ [q]) (insert (lower w) {}) rs' = Some (Inr out)"
        using Cons.prems(1) \<open>fill_blanks_body env s {} rs = Some pr\<close> pr Some qw n by simp
      from fill_blanks_loop_bound [OF this] show ?thesis by auto
    qed
  qed
qed

lemma generate_quiz_bound:
  assumes "extract_text env path = Inr doc"
      and "qtype = ''mcq'' \<or> qtype = ''true_false'' \<or> qtype = ''fill_blanks''"
      and "generate_quiz env path n qtype rs = Some res"
  shows "\<exists>qs. res = Inr qs \<and> length qs \<le> length (sent_tokenize env doc)
           \<and> (0 \<le> n \<longrightarrow> int (length qs) \<le> n)
           \<and> (int (length (sent_tokenize env doc)) < n \<longrightarrow> int (length qs) < n)"
proof -
  from generate_quiz_result [OF assms] obtain qs where
    q: "res = Inr qs" "0 \<le> n \<longrightarrow> int (length qs) \<le> n" by blast
  have l: "length qs \<le> length (sent_tokenize env doc)"
  proof -
    consider "qtype = ''mcq''" | "qtype = ''true_false''" | "qtype = ''fill_blanks''"
      using assms(2) by blast
    then show ?thesis
    proof cases
      case 1
      with assms q have
        "mcq_loop env n (py_take (n * 2) (sent_tokenize env doc)) [] {} rs = Some (Inr qs)"
        by (simp add: generate_quiz_def)
      from mcq_loop_bound [OF this] py_take_length_le [of "n * 2" "sent_tokenize env doc"]
      show ?thesis by simp
    next
      case 2
      with assms q have
        "true_false_loop (py_take n (sent_tokenize env doc)) [] rs = Some (Inr qs)"
        by (simp add: generate_quiz_def)
      from true_false_loop_result [OF this] py_take_length_le [of n "sent_tokenize env doc"]
      show ?thesis by simp
    next
      case 3
      with assms q have
        "fill_blanks_loop env n (sent_tokenize env doc) [] {} rs = Some (Inr qs)"
        by (simp add: generate_quiz_def generate_fill_blanks_def)
      from fill_blanks_loop_bound [OF this] show ?thesis by simp
    qed
  qed
  have "int (length (sent_tokenize env doc)) < n \<longrightarrow> int (length qs) < n" using l by simp
  with q l show ?thesis by blast
qed

lemma generate_quiz_true_false_total:
  assumes "extract_text env path = Inr doc"
      and "3 * length (sent_tokenize env doc) \<le> length rs"
  shows "\<exists>qs. generate_quiz env path n ''true_false'' rs = Some (Inr qs)
           \<and> length qs = length (py_take n (sent_tokenize env doc))
           \<and> (0 \<le> n \<longrightarrow> length qs = min (nat n) (length (sent_tokenize env doc)))"
proof -
  have "3 * length (py_take n (sent_tokenize env doc)) \<le> length rs"
    using assms(2) py_take_length_le [of n "sent_tokenize env doc"] by simp
  from true_false_loop_total [OF this, of "[]"] obtain out where
    r: "true_false_loop (py_take n (sent_tokenize env doc)) [] rs = Some (Inr out)" by blast
  from true_false_loop_result [OF r] have
    l: "length out = length (py_take n (sent_tokenize env doc))" by simp
  have "generate_quiz env path n ''true_false'' rs = Some (Inr out)"
    using assms(1) r by (simp add: generate_quiz_def)
  with l py_take_length_min [of n "sent_tokenize env doc"] show ?thesis by auto
qed

lemma generate_quiz_fill_blanks_total:
  assumes "extract_text env path = Inr doc"
      and "length (sent_tokenize env doc) \<le> length rs"
  shows "\<exists>qs. generate_quiz env path n ''fill_blanks'' rs = Some (Inr qs)"
proof -
  from fill_blanks_loop_total [OF assms(2), of env n "[]" "{}"] obtain out where
    "fill_blanks_loop env n (sent_tokenize env doc) [] {} rs = Some (Inr out)" by blast
  then have "generate_quiz env path n ''fill_blanks'' rs = Some (Inr out)"
    using assms(1) by (simp add: generate_quiz_def generate_fill_blanks_def)
  then show ?thesis by blast
qed

lemma generate_quiz_mcq_total:
  assumes "extract_text env path = Inr doc"
  shows "\<exists>rs qs. generate_quiz env path n ''mcq'' rs = Some (Inr qs)"
proof -
  from mcq_loop_total [of env n "py_take (n * 2) (sent_tokenize env doc)" "[]" "{}"]
  obtain ds out where
    "\<forall>rest. mcq_loop env n (py_take (n * 2) (sent_tokenize env doc)) [] {} (ds @ rest)
       = Some (Inr out)" by blast
  then have "mcq_loop env n (py_take (n * 2) (sent_tokenize env doc)) [] {} (ds @ [])
       = Some (Inr out)" by blast
  then have "generate_quiz env path n ''mcq'' ds = Some (Inr out)"
    using assms by (simp add: generate_quiz_def)
  then show ?thesis by blast
qed

lemma generate_quiz_emits:
  assumes "extract_text env path = Inr doc"
  shows "(generate_quiz env path n ''mcq'' rs = Some (Inr qs)
          \<and> (\<exists>s\<in>set (py_take (n * 2) (sent_tokenize env doc)).
                 important_words env {} (pos_tag env (word_tokenize env s)) \<noteq> [])
          \<longrightarrow> qs \<noteq> [])
       \<and> (generate_quiz env path n ''fill_blanks'' rs = Some (Inr qs) \<and> 1 \<le> n
          \<and> (\<exists>s\<in>set (sent_tokenize env doc).
                 fill_important_words env {} (pos_tag env (word_tokenize env s)) \<noteq> [])
          \<longrightarrow> qs \<noteq> [])"
proof (intro conjI impI)
  assume a: "generate_quiz env path n ''mcq'' rs = Some (Inr qs)
          \<and> (\<exists>s\<in>set (py_take (n * 2) (sent_tokenize env doc)).
                 important_words env {} (pos_tag env (word_tokenize env s)) \<noteq> [])"
  then have "mcq_loop env n (py_take (n * 2) (sent_tokenize env doc)) [] {} rs = Some (Inr qs)"
    using assms by (simp add: generate_quiz_def)
  from mcq_loop_emits [OF this] a show "qs \<noteq> []" by blast
next
  assume a: "generate_quiz env path n ''fill_blanks'' rs = Some (Inr qs) \<and> 1 \<le> n
          \<and> (\<exists>s\<in>set (sent_tokenize env doc).
                 fill_important_words env {} (pos_tag env (word_tokenize env s)) \<noteq> [])"
  then have "fill_blanks_loop env n (sent_tokenize env doc) [] {} rs = Some (Inr qs)"
    using assms by (simp add: generate_quiz_def generate_fill_blanks_def)
  from fill_blanks_loop_emits [OF this] a show "qs \<noteq> []" by blast
qed

text \<open>
  C2 (as the code has it): \<open>ObjectiveTest.generate_test\<close> and \<open>SubjectiveTest.generate_test\<close>
  fail, with an \<open>Exception\<close> that carries the message of the \<open>ValueError\<close> they raise, when
  the text yields fewer meaningful sentences or paragraphs than \<open>num_questions\<close>, and what
  they return has exactly \<open>num_questions\<close> questions. \<open>generate_quiz\<close> has no such check. For
  a document it can read and the types \<open>mcq\<close>, \<open>true_false\<close> and \<open>fill_blanks\<close> it raises
  nothing and it returns: for true/false and fill-in-blank with every random source long
  enough, for MCQ with every random source that starts with a suitable finite sequence of
  draws. What it returns has at most one question per sentence of the text, at most
  \<open>num_questions\<close> questions when \<open>num_questions\<close> is at least 0, and so fewer than
  \<open>num_questions\<close> questions when the text has fewer sentences than that. The true/false
  branch returns exactly one question for each sentence of \<open>sentences[:num_questions]\<close>; the
  MCQ and the fill-in-blank branch return at least one question when a sentence they scan
  has an eligible token (and, for fill-in-blank, \<open>num_questions\<close> is at least 1).
\<close>

theorem insufficient_content_policy:
  "(int (length (objective_preprocess_text env doc)) < n \<longrightarrow>
      objective_generate_test env m doc n rs =
        Some (Inl (Exception (''Error generating questions: '' @
           ''Not enough content to generate requested number of questions''))))
   \<and> (objective_generate_test env m doc n rs = Some (Inr (qtexts, keys)) \<longrightarrow>
      int (length qtexts) = n)
   \<and> (int (length (subjective_preprocess_text env doc)) < n \<longrightarrow>
      subjective_generate_test env m doc n rs =
        Some (Inl (Exception (''Error generating subjective questions: '' @
           ''Not enough content to generate requested number of questions''))))
   \<and> (subjective_generate_test env m doc n rs = Some (Inr (qtexts, keys)) \<longrightarrow>
      int (length qtexts) = n)
   \<and> (extract_text env path = Inr doc \<longrightarrow>
        (\<forall>qtype ds res.
            (qtype = ''mcq'' \<or> qtype = ''true_false'' \<or> qtype = ''fill_blanks'')
            \<and> generate_quiz env path n qtype ds = Some res \<longrightarrow>
            (\<exists>qs. res = Inr qs
               \<and> length qs \<le> length (sent_tokenize env doc)
               \<and> (0 \<le> n \<longrightarrow> int (length qs) \<le> n)
               \<and> (int (length (sent_tokenize env doc)) < n \<longrightarrow> int (length qs) < n)))
      \<and> (\<forall>ds. 3 * length (sent_tokenize env doc) \<le> length ds \<longrightarrow>
            (\<exists>qs. generate_quiz env path n ''true_false'' ds = Some (Inr qs)
               \<and> length qs = length (py_take n (sent_tokenize env doc))
               \<and> (0 \<le> n \<longrightarrow> length qs = min (nat n) (length (sent_tokenize env doc)))))
      \<and> (\<forall>ds. length (sent_tokenize env doc) \<le> length ds \<longrightarrow>
            (\<exists>qs. generate_quiz env path n ''fill_blanks'' ds = Some (Inr qs)))
      \<and> (\<exists>ds qs. \<forall>rest. generate_quiz env path n ''mcq'' (ds @ rest) = Some (Inr qs))
      \<and> (\<forall>ds qs. generate_quiz env path n ''mcq'' ds = Some (Inr qs)
            \<and> (\<exists>s\<in>set (py_take (n * 2) (sent_tokenize env doc)).
                   important_words env {} (pos_tag env (word_tokenize env s)) \<noteq> [])
            \<longrightarrow> qs \<noteq> [])
      \<and> (\<forall>ds qs. generate_quiz env path n ''fill_blanks'' ds = Some (Inr qs) \<and> 1 \<le> n
            \<and> (\<exists>s\<in>set (sent_tokenize env doc).
                   fill_important_words env {} (pos_tag env (word_tokenize env s)) \<noteq> [])
            \<longrightarrow> qs \<noteq> []))"
proof (intro conjI impI allI)
  assume "int (length (objective_preprocess_text env doc)) < n"
  then show "objective_generate_test env m doc n rs =
        Some (Inl (Exception (''Error generating questions: '' @
           ''Not enough content to generate requested number of questions'')))"
    by (simp add: objective_generate_test_def Let_def error_message_def not_enough_content_def)
next
  assume "objective_generate_test env m doc n rs = Some (Inr (qtexts, keys))"
  then show "int (length qtexts) = n" by (rule objective_generate_test_length)
next
  assume "int (length (subjective_preprocess_text env doc)) < n"
  then show "subjective_generate_test env m doc n rs =
        Some (Inl (Exception (''Error generating subjective questions: '' @
           ''Not enough content to generate requested number of questions'')))"
    by (simp add: subjective_generate_test_def Let_def error_message_def not_enough_content_def)
next
  assume "subjective_generate_test env m doc n rs = Some (Inr (qtexts, keys))"
  then show "int (length qtexts) = n" by (rule subjective_generate_test_length)
next
  fix qtype and ds :: "nat list" and res
  assume e: "extract_text env path = Inr doc"
     and a: "(qtype = ''mcq'' \<or> qtype = ''true_false'' \<or> qtype = ''fill_blanks'')
            \<and> generate_quiz env path n qtype ds = Some res"
  from a have t: "qtype = ''mcq'' \<or> qtype = ''true_false'' \<or> qtype = ''fill_blanks''"
    and g: "generate_quiz env path n qtype ds = Some res" by simp_all
  from generate_quiz_bound [OF e t g]
  show "\<exists>qs. res = Inr qs
               \<and> length qs \<le> length (sent_tokenize env doc)
               \<and> (0 \<le> n \<longrightarrow> int (length qs) \<le> n)
               \<and> (int (length (sent_tokenize env doc)) < n \<longrightarrow> int (length qs) < n)" .
next
  fix ds :: "nat list"
  assume e: "extract_text env path = Inr doc"
     and l: "3 * length (sent_tokenize env doc) \<le> length ds"
  from generate_quiz_true_false_total [OF e l]
  show "\<exists>qs. generate_quiz env path n ''true_false'' ds = Some (Inr qs)
               \<and> length qs = length (py_take n (sent_tokenize env doc))
               \<and> (0 \<le> n \<longrightarrow> length qs = min (nat n) (length (sent_tokenize env doc)))" .
next
  fix ds :: "nat list"
  assume e: "extract_text env path = Inr doc"
     and l: "length (sent_tokenize env doc) \<le> length ds"
  from generate_quiz_fill_blanks_total [OF e l]
  show "\<exists>qs. generate_quiz env path n ''fill_blanks'' ds = Some (Inr qs)" .
next
  assume e: "extract_text env path = Inr doc"
  from mcq_loop_total [of env n "py_take (n * 2) (sent_tokenize env doc)" "[]" "{}"]
  obtain ds out where
    "\<forall>rest. mcq_loop env n (py_take (n * 2) (sent_tokenize env doc)) [] {} (ds @ rest)
       = Some (Inr out)" by blast
  then have "\<forall>rest. generate_quiz env path n ''mcq'' (ds @ rest) = Some (Inr out)"
    using e by (simp add: generate_quiz_def)
  then show "\<exists>ds qs. \<forall>rest. generate_quiz env path n ''mcq'' (ds @ rest) = Some (Inr qs)"
    by blast
next
  fix ds :: "nat list" and qs :: "question list"
  assume e: "extract_text env path = Inr doc"
     and a: "generate_quiz env path n ''mcq'' ds = Some (Inr qs)
            \<and> (\<exists>s\<in>set (py_take (n * 2) (sent_tokenize env doc)).
                   important_words env {} (pos_tag env (word_tokenize env s)) \<noteq> [])"
  from generate_quiz_emits [OF e, of n ds qs] a show "qs \<noteq> []" by blast
next
  fix ds :: "nat list" and qs :: "question list"
  assume e: "extract_text env path = Inr doc"
     and a: "generate_quiz env path n ''fill_blanks'' ds = Some (Inr qs) \<and> 1 \<le> n
            \<and> (\<exists>s\<in>set (sent_tokenize env doc).
                   fill_important_words env {} (pos_tag env (word_tokenize env s)) \<noteq> [])"
  from generate_quiz_emits [OF e, of n ds qs] a show "qs \<noteq> []" by blast
qed

theorem insufficient_content_policy_witness:
  "int (length (objective_preprocess_text ex_nlp ex_long_text)) < 2
   \<and> objective_generate_test ex_nlp ex_models ex_long_text 2 ex_draws =
        Some (Inl (Exception (''Error generating questions: '' @
           ''Not enough content to generate requested number of questions'')))
   \<and> objective_generate_test ex_nlp ex_models ex_long_text 1 ex_draws =
        Some (Inr ([''Who chase mice?'' @ [CHR 0x0A] @ ''A) Brown'' @ [CHR 0x0A] @ ''B) Cats''
                     @ [CHR 0x0A] @ ''C) Hungry'' @ [CHR 0x0A] @ ''D) Chase''], [''B'']))
   \<and> int (length [''Who chase mice?'' @ [CHR 0x0A] @ ''A) Brown'' @ [CHR 0x0A] @ ''B) Cats''
                     @ [CHR 0x0A] @ ''C) Hungry'' @ [CHR 0x0A] @ ''D) Chase'']) = 1
   \<and> int (length (subjective_preprocess_text ex_nlp ex_long_text)) < 2
   \<and> subjective_generate_test ex_nlp ex_models ex_long_text 2 ex_draws =
        Some (Inl (Exception (''Error generating subjective questions: '' @
           ''Not enough content to generate requested number of questions'')))
   \<and> subjective_generate_test ex_nlp ex_models ex_long_text 1 ex_draws =
        Some (Inr ([''Explain how who chase mice?''], [''Sample Answer: '' @ ex_long_text]))
   \<and> int (length [''Explain how who chase mice?'']) = 1
   \<and> extract_text ex_nlp ''cats.pdf'' = Inr ''Cats chase mice. Dogs chase cats.''
   \<and> length (sent_tokenize ex_nlp ''Cats chase mice. Dogs chase cats.'') = 2
   \<and> (\<exists>qs. generate_quiz ex_nlp ''cats.pdf'' 5 ''true_false'' [0, 0, 0, 0, 0, 0] = Some (Inr qs)
         \<and> length qs = 2 \<and> int (length qs) < 5)
   \<and> (\<exists>qs. generate_quiz ex_nlp ''cats.pdf'' 5 ''fill_blanks'' [1, 0] = Some (Inr qs)
         \<and> qs \<noteq> [] \<and> length qs \<le> 2 \<and> int (length qs) < 5)
   \<and> (\<exists>ds qs. \<forall>rest. generate_quiz ex_nlp ''cats.pdf'' 5 ''mcq'' (ds @ rest) = Some (Inr qs))
   \<and> (\<exists>qs. generate_quiz ex_nlp ''cats.pdf'' 5 ''mcq'' ex_draws = Some (Inr qs)
         \<and> qs \<noteq> [] \<and> length qs \<le> 2 \<and> int (length qs) < 5)"
proof -
  have o1: "int (length (objective_preprocess_text ex_nlp ex_long_text)) < 2" by code_simp
  have o2: "objective_generate_test ex_nlp ex_models ex_long_text 1 ex_draws =
        Some (Inr ([''Who chase mice?'' @ [CHR 0x0A] @ ''A) Brown'' @ [CHR 0x0A] @ ''B) Cats''
                     @ [CHR 0x0A] @ ''C) Hungry'' @ [CHR 0x0A] @ ''D) Chase''], [''B'']))"
    by code_simp
  have s1: "int (length (subjective_preprocess_text ex_nlp ex_long_text)) < 2" by code_simp
  have s2: "subjective_generate_test ex_nlp ex_models ex_long_text 1 ex_draws =
        Some (Inr ([''Explain how who chase mice?''], [''Sample Answer: '' @ ex_long_text]))"
    by code_simp
  have e: "extract_text ex_nlp ''cats.pdf'' = Inr ''Cats chase mice. Dogs chase cats.''"
    by (simp add: ex_nlp_def)
  have len: "length (sent_tokenize ex_nlp ''Cats chase mice. Dogs chase cats.'') = 2"
    by code_simp
  have el_mcq: "\<exists>s\<in>set (py_take (5 * 2) (sent_tokenize ex_nlp ''Cats chase mice. Dogs chase cats.'')).
      important_words ex_nlp {} (pos_tag ex_nlp (word_tokenize ex_nlp s)) \<noteq> []"
    by code_simp
  have el_fill: "\<exists>s\<in>set (sent_tokenize ex_nlp ''Cats chase mice. Dogs chase cats.'').
      fill_important_words ex_nlp {} (pos_tag ex_nlp (word_tokenize ex_nlp s)) \<noteq> []"
    by code_simp
  have "generate_quiz ex_nlp ''cats.pdf'' 5 ''mcq'' ex_draws \<noteq> None" by code_simp
  then obtain res where g: "generate_quiz ex_nlp ''cats.pdf'' 5 ''mcq'' ex_draws = Some res"
    by blast
  note p1 = insufficient_content_policy [of ex_nlp ex_long_text 2 ex_models ex_draws]
  note p2 = insufficient_content_policy [of ex_nlp ex_long_text 1 ex_models ex_draws
      "[''Who chase mice?'' @ [CHR 0x0A] @ ''A) Brown'' @ [CHR 0x0A] @ ''B) Cats''
                     @ [CHR 0x0A] @ ''C) Hungry'' @ [CHR 0x0A] @ ''D) Chase'']" "[''B'']"]
  note p3 = insufficient_content_policy [of ex_nlp ex_long_text 1 ex_models ex_draws
      "[''Explain how who chase mice?'']" "[''Sample Answer: '' @ ex_long_text]"]
  note p4 = insufficient_content_policy [of ex_nlp "''Cats chase mice. Dogs chase cats.''" 5
      ex_models "[0, 0]" _ _ "''cats.pdf''"]
  from p1 o1 have a1: "objective_generate_test ex_nlp ex_models ex_long_text 2 ex_draws =
        Some (Inl (Exception (''Error generating questions: '' @
           ''Not enough content to generate requested number of questions'')))" by blast
  from p1 s1 have a2: "subjective_generate_test ex_nlp ex_models ex_long_text 2 ex_draws =
        Some (Inl (Exception (''Error generating subjective questions: '' @
           ''Not enough content to generate requested number of questions'')))" by blast
  from p2 o2 have a3:
    "int (length [''Who chase mice?'' @ [CHR 0x0A] @ ''A) Brown'' @ [CHR 0x0A] @ ''B) Cats''
                     @ [CHR 0x0A] @ ''C) Hungry'' @ [CHR 0x0A] @ ''D) Chase'']) = 1" by blast
  from p3 s2 have a4: "int (length [''Explain how who chase mice?'']) = 1" by blast
  note c5 = p4 [THEN conjunct2, THEN conjunct2, THEN conjunct2, THEN conjunct2, THEN mp, OF e]
  note bound = c5 [THEN conjunct1, rule_format]
  note tf = c5 [THEN conjunct2, THEN conjunct1, rule_format]
  note fill = c5 [THEN conjunct2, THEN conjunct2, THEN conjunct1, rule_format]
  note mcq = c5 [THEN conjunct2, THEN conjunct2, THEN conjunct2, THEN conjunct1]
  note mcq_ne = c5 [THEN conjunct2, THEN conjunct2, THEN conjunct2, THEN conjunct2,
                    THEN conjunct1, rule_format]
  note fill_ne = c5 [THEN conjunct2, THEN conjunct2, THEN conjunct2, THEN conjunct2,
                     THEN conjunct2, rule_format]
  have five: "(0::int) \<le> 5" "(1::int) \<le> 5" by simp_all
  have b1: "\<exists>qs. generate_quiz ex_nlp ''cats.pdf'' 5 ''true_false'' [0, 0, 0, 0, 0, 0] = Some (Inr qs)
         \<and> length qs = 2 \<and> int (length qs) < 5"
  proof -
    have h: "3 * length (sent_tokenize ex_nlp ''Cats chase mice. Dogs chase cats.'')
               \<le> length [0, 0, 0, 0, 0, 0 :: nat]"
      unfolding len by simp
    from tf [OF h] obtain qs where
      r: "generate_quiz ex_nlp ''cats.pdf'' 5 ''true_false'' [0, 0, 0, 0, 0, 0] = Some (Inr qs)"
      and l: "0 \<le> (5::int) \<longrightarrow>
          length qs = min (nat 5) (length (sent_tokenize ex_nlp ''Cats chase mice. Dogs chase cats.''))"
      by blast
    from l five(1) have "length qs = min (nat 5) 2" by (simp only: len)
    then have l2: "length qs = 2" by simp
    then have "int (length qs) < 5" by simp
    with r l2 show ?thesis by blast
  qed
  have b2: "\<exists>qs. generate_quiz ex_nlp ''cats.pdf'' 5 ''fill_blanks'' [1, 0] = Some (Inr qs)
         \<and> qs \<noteq> [] \<and> length qs \<le> 2 \<and> int (length qs) < 5"
  proof -
    have h: "length (sent_tokenize ex_nlp ''Cats chase mice. Dogs chase cats.'')
               \<le> length [1, 0 :: nat]"
      unfolding len by simp
    from fill [OF h] obtain qs where
      r: "generate_quiz ex_nlp ''cats.pdf'' 5 ''fill_blanks'' [1, 0] = Some (Inr qs)" by blast
    have ne: "qs \<noteq> []" using r five(2) el_fill by (intro fill_ne [of "[1, 0]" qs] conjI)
    have t: "''fill_blanks'' = ''mcq'' \<or> ''fill_blanks'' = ''true_false''
               \<or> ''fill_blanks'' = ''fill_blanks''" by simp
    from bound [of "''fill_blanks''" "[1, 0]" "Inr qs"] t r obtain qs' where
      q: "Inr qs = (Inr qs' :: error + question list)"
         "length qs' \<le> length (sent_tokenize ex_nlp ''Cats chase mice. Dogs chase cats.'')"
      by blast
    from q have l2: "length qs \<le> 2" by (simp add: len)
    then have "int (length qs) < 5" by simp
    with r ne l2 show ?thesis by blast
  qed
  have b3: "\<exists>qs. generate_quiz ex_nlp ''cats.pdf'' 5 ''mcq'' ex_draws = Some (Inr qs)
         \<and> qs \<noteq> [] \<and> length qs \<le> 2 \<and> int (length qs) < 5"
  proof -
    have t: "''mcq'' = ''mcq'' \<or> ''mcq'' = ''true_false'' \<or> ''mcq'' = ''fill_blanks''"
      by simp
    from bound [of "''mcq''" ex_draws res] t g obtain qs where
      q: "res = Inr qs"
         "length qs \<le> length (sent_tokenize ex_nlp ''Cats chase mice. Dogs chase cats.'')"
      by blast
    from q(2) have l2: "length qs \<le> 2" by (simp add: len)
    have r: "generate_quiz ex_nlp ''cats.pdf'' 5 ''mcq'' ex_draws = Some (Inr qs)"
      using g q(1) by simp
    have ne: "qs \<noteq> []" using r el_mcq by (intro mcq_ne [of ex_draws qs] conjI)
    from l2 have "int (length qs) < 5" by simp
    with r ne l2 show ?thesis by blast
  qed
  show ?thesis using o1 a1 o2 a3 s1 a2 s2 a4 e len b1 b2 mcq b3 by (intro conjI)
qed

text \<open>
  The text \<open>Cats chase mice. Dogs chase cats.\<close> has two sentences. Asked for five
  questions, \<open>generate_quiz\<close> returns two questions for each of the three quiz types and
  raises nothing.
\<close>

theorem insufficient_content_counterexample:
  "length (sent_tokenize ex_nlp ''Cats chase mice. Dogs chase cats.'') = 2
   \<and> extract_text ex_nlp ''cats.pdf'' = Inr ''Cats chase mice. Dogs chase cats.''
   \<and> generate_quiz ex_nlp ''cats.pdf'' 5 ''true_false'' [0, 0] =
       Some (Inr [\<lparr>q_question = ''Cats chase mice.'', q_options = None, q_correct = 0,
                    q_type = ''true_false'', q_correct_answer = None\<rparr>,
                  \<lparr>q_question = ''Dogs chase cats.'', q_options = None, q_correct = 0,
                    q_type = ''true_false'', q_correct_answer = None\<rparr>])
   \<and> generate_quiz ex_nlp ''cats.pdf'' 5 ''fill_blanks'' [1, 0] =
       Some (Inr [\<lparr>q_question = ''Cats _____ mice.'', q_options = Some [''chase''],
                    q_correct = 0, q_type = ''fill_blanks'', q_correct_answer = None\<rparr>,
                  \<lparr>q_question = ''_____ chase cats.'', q_options = Some [''Dogs''],
                    q_correct = 0, q_type = ''fill_blanks'', q_correct_answer = None\<rparr>])
   \<and> (case generate_quiz ex_nlp ''cats.pdf'' 5 ''mcq'' ex_draws of
         Some (Inr qs) \<Rightarrow> map q_options qs =
           [Some [''give'', ''chase'', ''make'', ''take''],
            Some [''object'', ''Dogs'', ''cats'', ''item'']]
       | _ \<Rightarrow> False)"
  by code_simp

end
